theory Spec2Isabelle
  imports Main "HOL-Library.AList"
begin

section \<open>Common JavaScript notions\<close>

text \<open>
  Template literals render an integer-valued Number in decimal
  (\<^verbatim>\<open>`app.log.${i}`\<close>, \<^verbatim>\<open>`Process ${pid}`\<close>).
\<close>

definition digit_char :: "nat \<Rightarrow> char" where
  "digit_char d = ''0123456789'' ! d"

function show_nat :: "nat \<Rightarrow> string" where
  "show_nat n = (if n < 10 then [digit_char n] else show_nat (n div 10) @ [digit_char (n mod 10)])"
  by pat_completeness auto
termination
  by (relation "measure id") auto

declare show_nat.simps [simp del]

definition show_int :: "int \<Rightarrow> string" where
  "show_int i = (if i < 0 then ''-'' @ show_nat (nat (- i)) else show_nat (nat i))"

text \<open>
  A thrown value: an error object with its \<^verbatim>\<open>name\<close>, \<^verbatim>\<open>message\<close> and, for the
  errors of Node's system calls (\<^verbatim>\<open>NodeJS.ErrnoException\<close>), its \<^verbatim>\<open>code\<close>.
\<close>

datatype js_error = JsError (err_name: string) (err_message: string) (err_code: "string option")

text \<open>The console sink: every call is recorded with its channel and its arguments.\<close>

datatype console_channel = ConsoleDebug | ConsoleLog | ConsoleWarn | ConsoleError

datatype 'v console_arg = CStr string | CErr js_error | CVal 'v

type_synonym 'v console_call = "console_channel \<times> 'v console_arg list"

section \<open>JavaScript values and the object store\<close>

text \<open>
  A context is typed \<^verbatim>\<open>Record<string, unknown>\<close> and \<^verbatim>\<open>safeStringify\<close> takes an
  \<^verbatim>\<open>unknown\<close>: any JavaScript value. Objects have identity and may be shared or cyclic,
  so a value of object type is a reference \<open>JRef a\<close> into a store, a list of objects
  addressed by position. The store holds plain objects (their own enumerable string-keyed
  data properties, in property order), arrays and \<^verbatim>\<open>Error\<close> instances (the values that
  reading \<^verbatim>\<open>name\<close>, \<^verbatim>\<open>message\<close> and \<^verbatim>\<open>stack\<close> gives; these properties are not
  enumerable). Prototypes are the built-in ones, so the only \<^verbatim>\<open>toJSON\<close> an object can
  have is an own property of a plain object. Accessor properties, proxies, dates and
  wrapper objects are outside the model. Floating point is not modelled: a finite Number is
  carried by its decimal rendering (\<^verbatim>\<open>Number::toString\<close>, zero is \<^verbatim>\<open>0\<close>).

  A function is foreign code. It is carried by what calling it as a method does:
  \<open>f a key\<close> is the outcome of the call with the object at address \<open>a\<close> as \<^verbatim>\<open>this\<close> and
  the string \<open>key\<close> as argument. The call returns a value, throws, or does not return;
  it does not change the store (an object it returns is in the store already).
\<close>

type_synonym addr = nat

datatype 'v call_result = Returns 'v | Throws js_error | Diverges

datatype jsval =
    JUndefined
  | JNull
  | JBool bool
  | JNumber string
  | JNaN
  | JInfinity
  | JString string
  | JBigInt int
  | JSymbol
  | JFunction "addr \<Rightarrow> string \<Rightarrow> jsval call_result"
  | JRef addr

datatype jsobj =
    PlainObject "(string \<times> jsval) list"
  | ArrayObject "jsval list"
  | ErrorObject (error_name: jsval) (error_message: jsval) (error_stack: jsval)

definition heap_get :: "jsobj list \<Rightarrow> addr \<Rightarrow> jsobj option" where
  "heap_get h a = (if a < length h then Some (h ! a) else None)"

text \<open>ToBoolean, as \<^verbatim>\<open>if (context)\<close> and \<^verbatim>\<open>context ? ... : ...\<close> apply it.\<close>

fun truthy :: "jsval \<Rightarrow> bool" where
  "truthy JUndefined = False"
| "truthy JNull = False"
| "truthy (JBool b) = b"
| "truthy (JNumber r) = (r \<noteq> ''0'')"
| "truthy JNaN = False"
| "truthy JInfinity = True"
| "truthy (JString s) = (s \<noteq> [])"
| "truthy (JBigInt i) = (i \<noteq> 0)"
| "truthy JSymbol = True"
| "truthy (JFunction f) = True"
| "truthy (JRef a) = True"

section \<open>JSON.stringify with the replacer of safeStringify\<close>

text \<open>
  \<^verbatim>\<open>QuoteJSONString\<close> of ECMA-262 on strings of 8-bit characters: the quote, the
  backslash and the control characters are escaped.
\<close>

definition hex_digit :: "nat \<Rightarrow> char" where
  "hex_digit d = ''0123456789abcdef'' ! d"

definition quote_char :: "char \<Rightarrow> string" where
  "quote_char c =
     (if c = CHR 0x08 then [CHR 0x5C, CHR ''b'']
      else if c = CHR 0x09 then [CHR 0x5C, CHR ''t'']
      else if c = CHR 0x0A then [CHR 0x5C, CHR ''n'']
      else if c = CHR 0x0C then [CHR 0x5C, CHR ''f'']
      else if c = CHR 0x0D then [CHR 0x5C, CHR ''r'']
      else if c = CHR 0x22 then [CHR 0x5C, CHR 0x22]
      else if c = CHR 0x5C then [CHR 0x5C, CHR 0x5C]
      else if (of_char c :: nat) < 32
        then [CHR 0x5C, CHR ''u'', CHR ''0'', CHR ''0'', hex_digit (of_char c div 16), hex_digit (of_char c mod 16)]
      else [c])"

definition QuoteJSONString :: "string \<Rightarrow> string" where
  "QuoteJSONString s = [CHR 0x22] @ concat (map quote_char s) @ [CHR 0x22]"

text \<open>\<^verbatim>\<open>Array.prototype.join\<close> on strings.\<close>

fun join :: "string \<Rightarrow> string list \<Rightarrow> string" where
  "join sep [] = []"
| "join sep [x] = x"
| "join sep (x # y # ys) = x @ sep @ join sep (y # ys)"

text \<open>
  The state of one \<^verbatim>\<open>JSON.stringify\<close> call: the store, the \<^verbatim>\<open>WeakSet\<close> \<^verbatim>\<open>seen\<close> of the
  replacer's closure, and the \<^verbatim>\<open>[[Stack]]\<close>, \<^verbatim>\<open>[[Indent]]\<close> and \<^verbatim>\<open>[[Gap]]\<close> of ECMA-262's
  serialization record.
\<close>

record json_state =
  js_heap :: "jsobj list"
  js_seen :: "addr set"
  js_stack :: "addr list"
  js_indent :: string
  js_gap :: string

text \<open>
  The replacer (logger.ts, lines 90 to 106): an object met before is replaced by the string
  \<^verbatim>\<open>'[Circular]'\<close>, a new object is added to \<^verbatim>\<open>seen\<close>, and an \<^verbatim>\<open>Error\<close> is replaced
  by a fresh object literal \<^verbatim>\<open>{name, message, stack}\<close>, allocated at the end of the store.
\<close>

definition replacer :: "json_state \<Rightarrow> jsval \<Rightarrow> jsval \<times> json_state" where
  "replacer s v =
     (case v of
        JRef a \<Rightarrow>
          (if a \<in> js_seen s then (JString ''[Circular]'', s)
           else
             (let s1 = s\<lparr>js_seen := insert a (js_seen s)\<rparr> in
              case heap_get (js_heap s1) a of
                Some (ErrorObject n m st) \<Rightarrow>
                  (JRef (length (js_heap s1)),
                   s1\<lparr>js_heap := js_heap s1 @ [PlainObject [(''name'', n), (''message'', m), (''stack'', st)]]\<rparr>)
              | _ \<Rightarrow> (v, s1)))
      | _ \<Rightarrow> (v, s))"

text \<open>
  The \<^verbatim>\<open>toJSON\<close> step of \<^verbatim>\<open>SerializeJSONProperty\<close>, which comes before the replacer:
  when the value is an object whose \<^verbatim>\<open>toJSON\<close> property is callable, the value becomes
  the result of calling it on the object with the key. \<open>toJSON_method\<close> is
  \<^verbatim>\<open>GetV(value, "toJSON")\<close> when it is callable: an own property of a plain object,
  since no built-in prototype of the model's objects (nor of a BigInt) has one.
\<close>

definition toJSON_method :: "jsobj \<Rightarrow> (addr \<Rightarrow> string \<Rightarrow> jsval call_result) option" where
  "toJSON_method obj =
     (case obj of
        PlainObject ps \<Rightarrow> (case map_of ps ''toJSON'' of Some (JFunction f) \<Rightarrow> Some f | _ \<Rightarrow> None)
      | _ \<Rightarrow> None)"

definition call_toJSON :: "jsobj list \<Rightarrow> string \<Rightarrow> jsval \<Rightarrow> jsval call_result" where
  "call_toJSON h key v =
     (case v of
        JRef a \<Rightarrow>
          (case heap_get h a of
             Some obj \<Rightarrow> (case toJSON_method obj of Some f \<Rightarrow> f a key | None \<Rightarrow> Returns v)
           | None \<Rightarrow> Returns v)
      | _ \<Rightarrow> Returns v)"

definition TypeError_BigInt :: js_error where
  "TypeError_BigInt = JsError ''TypeError'' ''Do not know how to serialize a BigInt'' None"

definition TypeError_cyclic :: js_error where
  "TypeError_cyclic = JsError ''TypeError'' ''Converting circular structure to JSON'' None"

text \<open>The text of an object and of an array from the texts of their members.\<close>

definition object_text :: "string \<Rightarrow> string \<Rightarrow> string \<Rightarrow> string list \<Rightarrow> string" where
  "object_text gap stepback indent partial =
     (if partial = [] then ''{}''
      else if gap = [] then ''{'' @ join '','' partial @ ''}''
      else ''{'' @ [CHR 0x0A] @ indent @ join ('','' @ [CHR 0x0A] @ indent) partial @ [CHR 0x0A] @ stepback @ ''}'')"

definition array_text :: "string \<Rightarrow> string \<Rightarrow> string \<Rightarrow> string list \<Rightarrow> string" where
  "array_text gap stepback indent partial =
     (if partial = [] then ''[]''
      else if gap = [] then ''['' @ join '','' partial @ '']''
      else ''['' @ [CHR 0x0A] @ indent @ join ('','' @ [CHR 0x0A] @ indent) partial @ [CHR 0x0A] @ stepback @ '']'')"

definition member_text :: "string \<Rightarrow> string \<Rightarrow> string \<Rightarrow> string" where
  "member_text gap k str = QuoteJSONString k @ '':'' @ (if gap = [] then [] else '' '') @ str"

text \<open>
  \<^verbatim>\<open>SerializeJSONProperty\<close>, \<^verbatim>\<open>SerializeJSONObject\<close> and \<^verbatim>\<open>SerializeJSONArray\<close> of
  ECMA-262, with the replacer above as \<^verbatim>\<open>ReplacerFunction\<close>. The value of a property
  first goes through the \<^verbatim>\<open>toJSON\<close> step, then through the replacer, and the result is
  serialized by its type. The key is the property name, the decimal index for an array
  element, and the empty string for the root. The recursion follows the object graph, so
  it carries a budget of nested calls: \<open>None\<close> is a run that needs more, or one where a
  \<^verbatim>\<open>toJSON\<close> call does not return. \<open>Inl e\<close> is a thrown \<open>e\<close>: by a \<^verbatim>\<open>toJSON\<close>
  call, for a BigInt, or for an object that is on the stack already (the cycle check of
  \<^verbatim>\<open>JSON.stringify\<close> itself). A property whose value serializes to \<^verbatim>\<open>undefined\<close> is
  left out of an object and is \<^verbatim>\<open>null\<close> in an array.
\<close>

function (sequential) SerializeJSONProperty :: "nat \<Rightarrow> json_state \<Rightarrow> string \<Rightarrow> jsval \<Rightarrow> (js_error + string option \<times> json_state) option"
  and SerializeJSONObject :: "nat \<Rightarrow> json_state \<Rightarrow> addr \<Rightarrow> (string \<times> jsval) list \<Rightarrow> (js_error + string \<times> json_state) option"
  and object_members :: "nat \<Rightarrow> json_state \<Rightarrow> (string \<times> jsval) list \<Rightarrow> (js_error + string list \<times> json_state) option"
  and SerializeJSONArray :: "nat \<Rightarrow> json_state \<Rightarrow> addr \<Rightarrow> jsval list \<Rightarrow> (js_error + string \<times> json_state) option"
  and array_elements :: "nat \<Rightarrow> json_state \<Rightarrow> nat \<Rightarrow> jsval list \<Rightarrow> (js_error + string list \<times> json_state) option"
where
  "SerializeJSONProperty 0 s key v = None"
| "SerializeJSONProperty (Suc n) s key v =
     (case call_toJSON (js_heap s) key v of
        Diverges \<Rightarrow> None
      | Throws e \<Rightarrow> Some (Inl e)
      | Returns v0 \<Rightarrow>
     (case replacer s v0 of (v1, s1) \<Rightarrow>
        (case v1 of
           JNull \<Rightarrow> Some (Inr (Some ''null'', s1))
         | JBool b \<Rightarrow> Some (Inr (Some (if b then ''true'' else ''false''), s1))
         | JString str \<Rightarrow> Some (Inr (Some (QuoteJSONString str), s1))
         | JNumber r \<Rightarrow> Some (Inr (Some r, s1))
         | JNaN \<Rightarrow> Some (Inr (Some ''null'', s1))
         | JInfinity \<Rightarrow> Some (Inr (Some ''null'', s1))
         | JBigInt i \<Rightarrow> Some (Inl TypeError_BigInt)
         | JUndefined \<Rightarrow> Some (Inr (None, s1))
         | JSymbol \<Rightarrow> Some (Inr (None, s1))
         | JFunction f \<Rightarrow> Some (Inr (None, s1))
         | JRef a \<Rightarrow>
             (case (case heap_get (js_heap s1) a of
                      None \<Rightarrow> None
                    | Some (ArrayObject vs) \<Rightarrow> SerializeJSONArray n s1 a vs
                    | Some (PlainObject ps) \<Rightarrow> SerializeJSONObject n s1 a ps
                    | Some (ErrorObject nm msg st) \<Rightarrow> SerializeJSONObject n s1 a []) of
                None \<Rightarrow> None
              | Some (Inl e) \<Rightarrow> Some (Inl e)
              | Some (Inr (str, s2)) \<Rightarrow> Some (Inr (Some str, s2))))))"
| "SerializeJSONObject n s a ps =
     (if a \<in> set (js_stack s) then Some (Inl TypeError_cyclic)
      else
        (let stepback = js_indent s;
             s1 = s\<lparr>js_stack := js_stack s @ [a], js_indent := js_indent s @ js_gap s\<rparr>
         in case object_members n s1 ps of
              None \<Rightarrow> None
            | Some (Inl e) \<Rightarrow> Some (Inl e)
            | Some (Inr (partial, s2)) \<Rightarrow>
                Some (Inr (object_text (js_gap s2) stepback (js_indent s2) partial,
                           s2\<lparr>js_stack := butlast (js_stack s2), js_indent := stepback\<rparr>))))"
| "object_members n s [] = Some (Inr ([], s))"
| "object_members n s ((k, v) # ps) =
     (case SerializeJSONProperty n s k v of
        None \<Rightarrow> None
      | Some (Inl e) \<Rightarrow> Some (Inl e)
      | Some (Inr (strP, s1)) \<Rightarrow>
          (case object_members n s1 ps of
             None \<Rightarrow> None
           | Some (Inl e) \<Rightarrow> Some (Inl e)
           | Some (Inr (partial, s2)) \<Rightarrow>
               Some (Inr ((case strP of None \<Rightarrow> [] | Some str \<Rightarrow> [member_text (js_gap s) k str]) @ partial, s2))))"
| "SerializeJSONArray n s a vs =
     (if a \<in> set (js_stack s) then Some (Inl TypeError_cyclic)
      else
        (let stepback = js_indent s;
             s1 = s\<lparr>js_stack := js_stack s @ [a], js_indent := js_indent s @ js_gap s\<rparr>
         in case array_elements n s1 0 vs of
              None \<Rightarrow> None
            | Some (Inl e) \<Rightarrow> Some (Inl e)
            | Some (Inr (partial, s2)) \<Rightarrow>
                Some (Inr (array_text (js_gap s2) stepback (js_indent s2) partial,
                           s2\<lparr>js_stack := butlast (js_stack s2), js_indent := stepback\<rparr>))))"
| "array_elements n s i [] = Some (Inr ([], s))"
| "array_elements n s i (v # vs) =
     (case SerializeJSONProperty n s (show_nat i) v of
        None \<Rightarrow> None
      | Some (Inl e) \<Rightarrow> Some (Inl e)
      | Some (Inr (strP, s1)) \<Rightarrow>
          (case array_elements n s1 (Suc i) vs of
             None \<Rightarrow> None
           | Some (Inl e) \<Rightarrow> Some (Inl e)
           | Some (Inr (partial, s2)) \<Rightarrow>
               Some (Inr ((case strP of None \<Rightarrow> ''null'' | Some str \<Rightarrow> str) # partial, s2))))"
  by pat_completeness auto
termination
  by (relation "measures
        [\<lambda>x. case x of Inl (Inl (n, s, key, v)) \<Rightarrow> n | Inl (Inr (n, s, a, ps)) \<Rightarrow> n
               | Inr (Inl (n, s, ps)) \<Rightarrow> n | Inr (Inr (Inl (n, s, a, vs))) \<Rightarrow> n
               | Inr (Inr (Inr (n, s, i, vs))) \<Rightarrow> n,
         \<lambda>x. case x of Inl (Inl (n, s, key, v)) \<Rightarrow> 0 | Inl (Inr (n, s, a, ps)) \<Rightarrow> 2
               | Inr (Inl (n, s, ps)) \<Rightarrow> 1 | Inr (Inr (Inl (n, s, a, vs))) \<Rightarrow> 2
               | Inr (Inr (Inr (n, s, i, vs))) \<Rightarrow> 1,
         \<lambda>x. case x of Inl (Inl (n, s, key, v)) \<Rightarrow> 0 | Inl (Inr (n, s, a, ps)) \<Rightarrow> 0
               | Inr (Inl (n, s, ps)) \<Rightarrow> length ps | Inr (Inr (Inl (n, s, a, vs))) \<Rightarrow> 0
               | Inr (Inr (Inr (n, s, i, vs))) \<Rightarrow> length vs]")
     simp_all

text \<open>
  The \<^verbatim>\<open>space\<close> argument of \<^verbatim>\<open>JSON.stringify\<close>, a Number: that many spaces, at most ten.
\<close>

definition gap_of :: "int \<Rightarrow> string" where
  "gap_of space = replicate (nat (min 10 space)) CHR '' ''"

text \<open>
  \<^verbatim>\<open>safeStringify(obj, indent)\<close> (logger.ts, lines 86 to 109): a new \<^verbatim>\<open>seen\<close> set, then
  \<^verbatim>\<open>JSON.stringify(obj, replacer, indent)\<close>, which serializes \<open>obj\<close> as the property
  with the empty key of a wrapper object. The objects the replacer allocates are
  unreachable afterwards; the caller's store is as it was. \<open>Inr None\<close> is the
  \<^verbatim>\<open>undefined\<close> that \<^verbatim>\<open>JSON.stringify\<close> returns for a value with no JSON text.
\<close>

definition safeStringify :: "nat \<Rightarrow> jsobj list \<Rightarrow> jsval \<Rightarrow> int \<Rightarrow> (js_error + string option) option" where
  "safeStringify fuel h obj indent =
     (case SerializeJSONProperty fuel
             \<lparr>js_heap = h, js_seen = {}, js_stack = [], js_indent = [], js_gap = gap_of indent\<rparr> [] obj of
        None \<Rightarrow> None
      | Some (Inl e) \<Rightarrow> Some (Inl e)
      | Some (Inr (r, s)) \<Rightarrow> Some (Inr r))"

section \<open>The logger's environment\<close>

text \<open>
  The external collaborators of the logger: the store of JavaScript objects, the file
  system, Electron's \<^verbatim>\<open>app.getPath\<close> and the console. The file system is a flat store of
  regular files (path to content; a character is a byte, so the length of the content is
  the size \<^verbatim>\<open>statSync\<close> reports) and a set of directories; only \<^verbatim>\<open>existsSync\<close> and
  \<^verbatim>\<open>mkdirSync\<close> look at the directories, except that a directory cannot be overwritten.
  \<open>userData\<close> is what \<^verbatim>\<open>app.getPath('userData')\<close> does now (\<open>Inl e\<close>: it throws \<open>e\<close>).
  \<open>fs_fault\<close> injects failures: a call it maps to \<open>Some e\<close> throws \<open>e\<close> and has no
  effect (permission denied, disk full, ...). \<open>calls\<close> records every call made, in order,
  \<open>console\<close> every console call.
\<close>

datatype sys_call =
    GetPath string
  | ExistsSync string
  | MkdirSync string
  | StatSync string
  | UnlinkSync string
  | RenameSync string string
  | AppendFileSync string string

record world =
  heap :: "jsobj list"
  files :: "string \<Rightarrow> string option"
  dirs :: "string set"
  userData :: "js_error + string"
  fs_fault :: "sys_call \<Rightarrow> js_error option"
  calls :: "sys_call list"
  console :: "jsval console_call list"

definition errno :: "string \<Rightarrow> js_error" where
  "errno c = JsError ''Error'' c (Some c)"

definition record_call :: "world \<Rightarrow> sys_call \<Rightarrow> world" where
  "record_call w c = w\<lparr>calls := calls w @ [c]\<rparr>"

definition console_emit :: "world \<Rightarrow> console_channel \<Rightarrow> jsval console_arg list \<Rightarrow> world" where
  "console_emit w ch args = w\<lparr>console := console w @ [(ch, args)]\<rparr>"

definition app_getPath :: "world \<Rightarrow> (js_error + string) \<times> world" where
  "app_getPath w = (userData w, record_call w (GetPath ''userData''))"

text \<open>\<^verbatim>\<open>fs.existsSync\<close> never throws: a failure is \<^verbatim>\<open>false\<close>.\<close>

definition existsSync :: "world \<Rightarrow> string \<Rightarrow> bool \<times> world" where
  "existsSync w p =
     (fs_fault w (ExistsSync p) = None \<and> (files w p \<noteq> None \<or> p \<in> dirs w), record_call w (ExistsSync p))"

text \<open>\<^verbatim>\<open>fs.mkdirSync(p, { recursive: true })\<close>.\<close>

definition mkdirSync :: "world \<Rightarrow> string \<Rightarrow> js_error option \<times> world" where
  "mkdirSync w p =
     (let w1 = record_call w (MkdirSync p) in
      case fs_fault w (MkdirSync p) of
        Some e \<Rightarrow> (Some e, w1)
      | None \<Rightarrow>
          (if files w p \<noteq> None then (Some (errno ''EEXIST''), w1)
           else (None, w1\<lparr>dirs := insert p (dirs w1)\<rparr>)))"

text \<open>\<^verbatim>\<open>fs.statSync(p).size\<close>.\<close>

definition statSync :: "world \<Rightarrow> string \<Rightarrow> (js_error + int) \<times> world" where
  "statSync w p =
     (let w1 = record_call w (StatSync p) in
      case fs_fault w (StatSync p) of
        Some e \<Rightarrow> (Inl e, w1)
      | None \<Rightarrow>
          (case files w p of
             None \<Rightarrow> (Inl (errno ''ENOENT''), w1)
           | Some content \<Rightarrow> (Inr (int (length content)), w1)))"

definition unlinkSync :: "world \<Rightarrow> string \<Rightarrow> js_error option \<times> world" where
  "unlinkSync w p =
     (let w1 = record_call w (UnlinkSync p) in
      case fs_fault w (UnlinkSync p) of
        Some e \<Rightarrow> (Some e, w1)
      | None \<Rightarrow>
          (case files w p of
             None \<Rightarrow> (Some (errno ''ENOENT''), w1)
           | Some content \<Rightarrow> (None, w1\<lparr>files := (files w1)(p := None)\<rparr>)))"

text \<open>\<^verbatim>\<open>fs.renameSync\<close> replaces an existing file at the new path.\<close>

definition renameSync :: "world \<Rightarrow> string \<Rightarrow> string \<Rightarrow> js_error option \<times> world" where
  "renameSync w oldPath newPath =
     (let w1 = record_call w (RenameSync oldPath newPath) in
      case fs_fault w (RenameSync oldPath newPath) of
        Some e \<Rightarrow> (Some e, w1)
      | None \<Rightarrow>
          (case files w oldPath of
             None \<Rightarrow> (Some (errno ''ENOENT''), w1)
           | Some content \<Rightarrow>
               (if newPath \<in> dirs w then (Some (errno ''EISDIR''), w1)
                else (None, w1\<lparr>files := (files w1)(oldPath := None, newPath \<mapsto> content)\<rparr>))))"

text \<open>\<^verbatim>\<open>fs.appendFileSync(p, data, 'utf8')\<close> creates the file when it is missing.\<close>

definition appendFileSync :: "world \<Rightarrow> string \<Rightarrow> string \<Rightarrow> js_error option \<times> world" where
  "appendFileSync w p content =
     (let w1 = record_call w (AppendFileSync p content) in
      case fs_fault w (AppendFileSync p content) of
        Some e \<Rightarrow> (Some e, w1)
      | None \<Rightarrow>
          (if p \<in> dirs w then (Some (errno ''EISDIR''), w1)
           else (None, w1\<lparr>files := (files w1)(p \<mapsto> (case files w p of None \<Rightarrow> [] | Some old \<Rightarrow> old) @ content)\<rparr>)))"

text \<open>
  \<^verbatim>\<open>path.join\<close> of a normalised directory (no trailing separator) and a file name, on
  POSIX.
\<close>

definition path_join :: "string \<Rightarrow> string \<Rightarrow> string" where
  "path_join a b = a @ ''/'' @ b"

section \<open>Logger (main/utils/logger)\<close>

datatype LogLevel = DEBUG | INFO | WARN | ERROR

text \<open>The numeric values of the enum, which \<^verbatim>\<open>level < this.options.level\<close> compares.\<close>

fun level_num :: "LogLevel \<Rightarrow> int" where
  "level_num DEBUG = 0"
| "level_num INFO = 1"
| "level_num WARN = 2"
| "level_num ERROR = 3"

fun LOG_LEVEL_NAMES :: "LogLevel \<Rightarrow> string" where
  "LOG_LEVEL_NAMES DEBUG = ''DEBUG''"
| "LOG_LEVEL_NAMES INFO = ''INFO''"
| "LOG_LEVEL_NAMES WARN = ''WARN''"
| "LOG_LEVEL_NAMES ERROR = ''ERROR''"

text \<open>\<^verbatim>\<open>LoggerOptions\<close>: every option may be absent.\<close>

record LoggerOptions =
  opt_level :: "LogLevel option"
  opt_fileLogging :: "bool option"
  opt_maxFileSize :: "int option"
  opt_maxBackups :: "int option"
  opt_deferInit :: "bool option"
  opt_rotationCheckInterval :: "int option"
  opt_bufferSize :: "int option"

text \<open>\<^verbatim>\<open>Required<LoggerOptions>\<close>.\<close>

record RequiredLoggerOptions =
  level :: LogLevel
  fileLogging :: bool
  maxFileSize :: int
  maxBackups :: int
  deferInit :: bool
  rotationCheckInterval :: int
  bufferSize :: int

definition DEFAULT_OPTIONS :: RequiredLoggerOptions where
  "DEFAULT_OPTIONS =
     \<lparr>level = INFO, fileLogging = False, maxFileSize = 10 * 1024 * 1024, maxBackups = 5,
      deferInit = False, rotationCheckInterval = 100, bufferSize = 0\<rparr>"

text \<open>\<^verbatim>\<open>{ ...DEFAULT_OPTIONS, ...options }\<close>.\<close>

definition merge_options :: "RequiredLoggerOptions \<Rightarrow> LoggerOptions \<Rightarrow> RequiredLoggerOptions" where
  "merge_options d opts =
     \<lparr>level = (case opt_level opts of None \<Rightarrow> level d | Some x \<Rightarrow> x),
      fileLogging = (case opt_fileLogging opts of None \<Rightarrow> fileLogging d | Some x \<Rightarrow> x),
      maxFileSize = (case opt_maxFileSize opts of None \<Rightarrow> maxFileSize d | Some x \<Rightarrow> x),
      maxBackups = (case opt_maxBackups opts of None \<Rightarrow> maxBackups d | Some x \<Rightarrow> x),
      deferInit = (case opt_deferInit opts of None \<Rightarrow> deferInit d | Some x \<Rightarrow> x),
      rotationCheckInterval = (case opt_rotationCheckInterval opts of None \<Rightarrow> rotationCheckInterval d | Some x \<Rightarrow> x),
      bufferSize = (case opt_bufferSize opts of None \<Rightarrow> bufferSize d | Some x \<Rightarrow> x)\<rparr>"

record Logger =
  moduleName :: string
  options :: RequiredLoggerOptions
  logFilePath :: "string option"
  logsDir :: "string option"
  fileLoggingInitialized :: bool
  logWriteCount :: int
  logBuffer :: "string list"

text \<open>The \<^verbatim>\<open>catch\<close> block of \<^verbatim>\<open>initFileLogging\<close>.\<close>

definition init_failed :: "Logger \<Rightarrow> world \<Rightarrow> js_error \<Rightarrow> Logger \<times> world" where
  "init_failed L w e =
     (L\<lparr>options := (options L)\<lparr>fileLogging := False\<rparr>\<rparr>,
      console_emit w ConsoleError [CStr ''[Logger] Failed to initialize file logging:'', CErr e])"

definition initFileLogging :: "Logger \<Rightarrow> world \<Rightarrow> Logger \<times> world" where
  "initFileLogging L w =
     (if fileLoggingInitialized L then (L, w)
      else
        (case app_getPath w of
           (Inl e, w1) \<Rightarrow> init_failed L w1 e
         | (Inr base, w1) \<Rightarrow>
             (let d = path_join base ''logs'';
                  L1 = L\<lparr>logsDir := Some d\<rparr>
              in case existsSync w1 d of
                   (ex, w2) \<Rightarrow>
                     (case (if \<not> ex then mkdirSync w2 d else (None, w2)) of
                        (Some e, w3) \<Rightarrow> init_failed L1 w3 e
                      | (None, w3) \<Rightarrow>
                          (L1\<lparr>logFilePath := Some (path_join d ''app.log''), fileLoggingInitialized := True\<rparr>, w3)))))"

definition ensureFileLoggingInitialized :: "Logger \<Rightarrow> world \<Rightarrow> Logger \<times> world" where
  "ensureFileLoggingInitialized L w =
     (if fileLogging (options L) \<and> \<not> fileLoggingInitialized L then initFileLogging L w else (L, w))"

text \<open>The constructor.\<close>

definition new_Logger :: "world \<Rightarrow> string \<Rightarrow> LoggerOptions \<Rightarrow> Logger \<times> world" where
  "new_Logger w nm opts =
     (let L = \<lparr>moduleName = nm, options = merge_options DEFAULT_OPTIONS opts, logFilePath = None,
                logsDir = None, fileLoggingInitialized = False, logWriteCount = 0, logBuffer = []\<rparr>
      in if fileLogging (options L) \<and> \<not> deferInit (options L) then initFileLogging L w else (L, w))"

definition getModuleName :: "Logger \<Rightarrow> string" where
  "getModuleName L = moduleName L"

definition getLevel :: "Logger \<Rightarrow> LogLevel" where
  "getLevel L = level (options L)"

definition setLevel :: "Logger \<Rightarrow> LogLevel \<Rightarrow> Logger" where
  "setLevel L lvl = L\<lparr>options := (options L)\<lparr>level := lvl\<rparr>\<rparr>"

definition isFileLoggingEnabled :: "Logger \<Rightarrow> bool" where
  "isFileLoggingEnabled L = fileLogging (options L)"

text \<open>\<^verbatim>\<open>!this.logFilePath\<close>: \<^verbatim>\<open>null\<close> and the empty string are falsy.\<close>

definition unset :: "string option \<Rightarrow> bool" where
  "unset p = (case p of None \<Rightarrow> True | Some s \<Rightarrow> s = [])"

fun console_channel_of :: "LogLevel \<Rightarrow> console_channel" where
  "console_channel_of DEBUG = ConsoleDebug"
| "console_channel_of INFO = ConsoleLog"
| "console_channel_of WARN = ConsoleWarn"
| "console_channel_of ERROR = ConsoleError"

definition consoleLog :: "world \<Rightarrow> LogLevel \<Rightarrow> string \<Rightarrow> string \<Rightarrow> jsval \<Rightarrow> world" where
  "consoleLog w lvl prefix message ctx =
     (let args = [CStr (prefix @ '' '' @ message)] @ (if truthy ctx then [CVal ctx] else [])
      in console_emit w (console_channel_of lvl) args)"

subsection \<open>Rotation\<close>

definition backup_path :: "string \<Rightarrow> int \<Rightarrow> string" where
  "backup_path dir i = path_join dir (''app.log.'' @ show_int i)"

text \<open>
  The loop \<^verbatim>\<open>for (let i = this.options.maxBackups - 1; i >= 1; i--)\<close> of
  \<^verbatim>\<open>rotateIfNeeded\<close>, from index \<open>i\<close> on. \<open>Some e\<close> is an exception that leaves the loop.
\<close>

function rotate_backups :: "string \<Rightarrow> int \<Rightarrow> int \<Rightarrow> world \<Rightarrow> js_error option \<times> world" where
  "rotate_backups dir maxB i w =
     (if i \<ge> 1 then
        (let oldPath = backup_path dir i;
             newPath = backup_path dir (i + 1);
             r = existsSync w oldPath
         in if fst r then
              (let u = (if i = maxB - 1 then unlinkSync (snd r) oldPath else renameSync (snd r) oldPath newPath)
               in if fst u = None then rotate_backups dir maxB (i - 1) (snd u) else u)
            else rotate_backups dir maxB (i - 1) (snd r))
      else (None, w))"
  by pat_completeness auto
termination
  by (relation "measure (\<lambda>(dir, maxB, i, w). nat i)") auto

declare rotate_backups.simps [simp del]

text \<open>The \<^verbatim>\<open>catch\<close> block of \<^verbatim>\<open>rotateIfNeeded\<close>.\<close>

definition rotation_failed :: "world \<Rightarrow> js_error \<Rightarrow> world" where
  "rotation_failed w e = console_emit w ConsoleError [CStr ''[Logger] Log rotation failed:'', CErr e]"

definition rotateIfNeeded :: "Logger \<Rightarrow> world \<Rightarrow> world" where
  "rotateIfNeeded L w =
     (if unset (logFilePath L) \<or> unset (logsDir L) then w
      else
        (case (logFilePath L, logsDir L) of
           (Some p, Some d) \<Rightarrow>
             (case existsSync w p of
                (ex, w1) \<Rightarrow>
                  (if \<not> ex then w1
                   else
                     (case statSync w1 p of
                        (Inl e, w2) \<Rightarrow> rotation_failed w2 e
                      | (Inr sz, w2) \<Rightarrow>
                          (if sz < maxFileSize (options L) then w2
                           else
                             (case rotate_backups d (maxBackups (options L)) (maxBackups (options L) - 1) w2 of
                                (Some e, w3) \<Rightarrow> rotation_failed w3 e
                              | (None, w3) \<Rightarrow>
                                  (case renameSync w3 p (path_join d ''app.log.1'') of
                                     (Some e, w4) \<Rightarrow> rotation_failed w4 e
                                   | (None, w4) \<Rightarrow> w4))))))
         | _ \<Rightarrow> w))"

subsection \<open>Writing\<close>

definition writeToFile :: "Logger \<Rightarrow> world \<Rightarrow> string \<Rightarrow> Logger \<times> world" where
  "writeToFile L w content =
     (if unset (logFilePath L) \<or> unset (logsDir L) then (L, w)
      else
        (case logFilePath L of
           None \<Rightarrow> (L, w)
         | Some p \<Rightarrow>
             (let L1 = L\<lparr>logWriteCount := logWriteCount L + 1\<rparr>;
                  checked = (logWriteCount L1 \<ge> rotationCheckInterval (options L1));
                  w1 = (if checked then rotateIfNeeded L1 w else w);
                  L2 = (if checked then L1\<lparr>logWriteCount := 0\<rparr> else L1)
              in case appendFileSync w1 p content of
                   (None, w2) \<Rightarrow> (L2, w2)
                 | (Some e, w2) \<Rightarrow>
                     (L2, console_emit w2 ConsoleError [CStr ''[Logger] Failed to write to log file:'', CErr e]))))"

definition flushBuffer :: "Logger \<Rightarrow> world \<Rightarrow> Logger \<times> world" where
  "flushBuffer L w =
     (if length (logBuffer L) = 0 then (L, w)
      else
        (let content = concat (logBuffer L)
         in writeToFile (L\<lparr>logBuffer := []\<rparr>) w content))"

definition flush :: "Logger \<Rightarrow> world \<Rightarrow> Logger \<times> world" where
  "flush L w = flushBuffer L w"

text \<open>
  The two lines of \<^verbatim>\<open>fileLog\<close> that format the entry:
  \<^verbatim>\<open>contextStr = context ? ` ${safeStringify(context)}` : ''\<close> and
  \<^verbatim>\<open>logEntry = `${prefix} ${message}${contextStr}\n`\<close>. The serializer runs with a
  budget of one more than the number of objects in the store. A template literal renders
  \<^verbatim>\<open>undefined\<close> as the text \<^verbatim>\<open>undefined\<close>.
\<close>

definition contextStr :: "jsobj list \<Rightarrow> jsval \<Rightarrow> (js_error + string) option" where
  "contextStr h ctx =
     (if truthy ctx then
        (case safeStringify (Suc (length h)) h ctx 2 of
           None \<Rightarrow> None
         | Some (Inl e) \<Rightarrow> Some (Inl e)
         | Some (Inr r) \<Rightarrow> Some (Inr ('' '' @ (case r of None \<Rightarrow> ''undefined'' | Some str \<Rightarrow> str))))
      else Some (Inr []))"

definition logEntry :: "jsobj list \<Rightarrow> string \<Rightarrow> string \<Rightarrow> jsval \<Rightarrow> (js_error + string) option" where
  "logEntry h prefix message ctx =
     (case contextStr h ctx of
        None \<Rightarrow> None
      | Some (Inl e) \<Rightarrow> Some (Inl e)
      | Some (Inr cs) \<Rightarrow> Some (Inr (prefix @ '' '' @ message @ cs @ [CHR 0x0A])))"

text \<open>
  A call of the logger returns the exception it threw, if any, with the logger and the
  environment as the call left them. \<open>None\<close> is a call that does not return.
\<close>

type_synonym outcome = "(js_error option \<times> Logger \<times> world) option"

definition fileLog :: "Logger \<Rightarrow> world \<Rightarrow> string \<Rightarrow> string \<Rightarrow> jsval \<Rightarrow> outcome" where
  "fileLog L w prefix message ctx =
     (if unset (logFilePath L) \<or> unset (logsDir L) then Some (None, L, w)
      else
        (case logEntry (heap w) prefix message ctx of
           None \<Rightarrow> None
         | Some (Inl e) \<Rightarrow> Some (Some e, L, w)
         | Some (Inr entry) \<Rightarrow>
             (if bufferSize (options L) > 0 then
                (let L1 = L\<lparr>logBuffer := logBuffer L @ [entry]\<rparr>
                 in if int (length (logBuffer L1)) \<ge> bufferSize (options L1)
                    then Some (None, flushBuffer L1 w)
                    else Some (None, L1, w))
              else Some (None, writeToFile L w entry))))"

subsection \<open>The logging methods\<close>

text \<open>\<open>ts\<close> is what \<^verbatim>\<open>formatTimestamp()\<close> returns at the call.\<close>

definition log_prefix :: "string \<Rightarrow> LogLevel \<Rightarrow> string \<Rightarrow> string" where
  "log_prefix ts lvl nm = ''['' @ ts @ ''] ['' @ LOG_LEVEL_NAMES lvl @ ''] ['' @ nm @ '']''"

definition log :: "Logger \<Rightarrow> world \<Rightarrow> string \<Rightarrow> LogLevel \<Rightarrow> string \<Rightarrow> jsval \<Rightarrow> outcome" where
  "log L w ts lvl message ctx =
     (if level_num lvl < level_num (level (options L)) then Some (None, L, w)
      else
        (let prefix = log_prefix ts lvl (moduleName L);
             w1 = consoleLog w lvl prefix message ctx
         in if fileLogging (options L) then
              (case ensureFileLoggingInitialized L w1 of
                 (L2, w2) \<Rightarrow>
                   (if \<not> unset (logFilePath L2) then fileLog L2 w2 prefix message ctx
                    else Some (None, L2, w2)))
            else Some (None, L, w1)))"

definition debug :: "Logger \<Rightarrow> world \<Rightarrow> string \<Rightarrow> string \<Rightarrow> jsval \<Rightarrow> outcome" where
  "debug L w ts message ctx = log L w ts DEBUG message ctx"

definition info :: "Logger \<Rightarrow> world \<Rightarrow> string \<Rightarrow> string \<Rightarrow> jsval \<Rightarrow> outcome" where
  "info L w ts message ctx = log L w ts INFO message ctx"

definition warn :: "Logger \<Rightarrow> world \<Rightarrow> string \<Rightarrow> string \<Rightarrow> jsval \<Rightarrow> outcome" where
  "warn L w ts message ctx = log L w ts WARN message ctx"

text \<open>
  \<^verbatim>\<open>error(message, error)\<close>: for an \<^verbatim>\<open>Error\<close> instance the context is the new object
  \<^verbatim>\<open>{ error: { name, message, stack } }\<close> (two object literals, allocated at the end of the
  store); any other argument is the context as it is.
\<close>

definition error :: "Logger \<Rightarrow> world \<Rightarrow> string \<Rightarrow> string \<Rightarrow> jsval \<Rightarrow> outcome" where
  "error L w ts message err =
     (case (case err of JRef a \<Rightarrow> heap_get (heap w) a | _ \<Rightarrow> None) of
        Some (ErrorObject n m st) \<Rightarrow>
          (let inner = length (heap w);
               outer = Suc inner;
               w1 = w\<lparr>heap := heap w @ [PlainObject [(''name'', n), (''message'', m), (''stack'', st)],
                                         PlainObject [(''error'', JRef inner)]]\<rparr>
           in log L w1 ts ERROR message (JRef outer))
      | _ \<Rightarrow> log L w ts ERROR message err)"

section \<open>Process tracker (main/utils/process-tracker)\<close>

datatype KillSignal = SIGTERM | SIGKILL | SIGINT

fun signal_name :: "KillSignal \<Rightarrow> string" where
  "signal_name SIGTERM = ''SIGTERM''"
| "signal_name SIGKILL = ''SIGKILL''"
| "signal_name SIGINT = ''SIGINT''"

record ProcessInfo =
  pid :: int
  name :: string
  startTime :: int

text \<open>
  \<^verbatim>\<open>trackedProcesses\<close> is a JavaScript \<^verbatim>\<open>Map<number, ProcessInfo>\<close>: an
  insertion-ordered association list. \<^verbatim>\<open>set\<close> overwrites an existing key in place and
  appends a new one (\<^const>\<open>AList.update\<close>), \<^verbatim>\<open>delete\<close> removes the key
  (\<^const>\<open>AList.delete\<close>), \<^verbatim>\<open>get\<close> is \<^const>\<open>map_of\<close>.
\<close>

record ProcessTracker =
  trackedProcesses :: "(int \<times> ProcessInfo) list"

text \<open>
  The operating system as the tracker sees it: \<open>kill_outcome\<close> says what
  \<^verbatim>\<open>process.kill(pid, signal)\<close> does (\<open>None\<close>: it returns; \<open>Some e\<close>: it throws
  \<open>e\<close>), \<open>kill_calls\<close> records every call made, \<open>proc_console\<close> the console output.
\<close>

record proc_env =
  kill_outcome :: "int \<Rightarrow> KillSignal \<Rightarrow> js_error option"
  kill_calls :: "(int \<times> KillSignal) list"
  proc_console :: "unit console_call list"

definition proc_log :: "proc_env \<Rightarrow> unit console_arg list \<Rightarrow> proc_env" where
  "proc_log w args = w\<lparr>proc_console := proc_console w @ [(ConsoleLog, args)]\<rparr>"

definition proc_error :: "proc_env \<Rightarrow> unit console_arg list \<Rightarrow> proc_env" where
  "proc_error w args = w\<lparr>proc_console := proc_console w @ [(ConsoleError, args)]\<rparr>"

definition process_kill :: "proc_env \<Rightarrow> int \<Rightarrow> KillSignal \<Rightarrow> js_error option \<times> proc_env" where
  "process_kill w p sig = (kill_outcome w p sig, w\<lparr>kill_calls := kill_calls w @ [(p, sig)]\<rparr>)"

definition new_ProcessTracker :: ProcessTracker where
  "new_ProcessTracker = \<lparr>trackedProcesses = []\<rparr>"

definition isTracked :: "ProcessTracker \<Rightarrow> int \<Rightarrow> bool" where
  "isTracked t p = (p \<in> fst ` set (trackedProcesses t))"

definition getTrackedCount :: "ProcessTracker \<Rightarrow> nat" where
  "getTrackedCount t = length (trackedProcesses t)"

definition getTrackedPids :: "ProcessTracker \<Rightarrow> int list" where
  "getTrackedPids t = map fst (trackedProcesses t)"

definition getProcessInfo :: "ProcessTracker \<Rightarrow> int \<Rightarrow> ProcessInfo option" where
  "getProcessInfo t p = map_of (trackedProcesses t) p"

text \<open>\<open>now\<close> is what \<^verbatim>\<open>new Date()\<close> gives at the call.\<close>

definition trackProcess :: "ProcessTracker \<Rightarrow> proc_env \<Rightarrow> int \<Rightarrow> int \<Rightarrow> string \<Rightarrow> ProcessTracker \<times> proc_env" where
  "trackProcess t w now p nm =
     (let w1 = (if isTracked t p
                then proc_log w [CStr (''[ProcessTracker] Process '' @ show_int p @ '' ('' @ nm @ '') already tracked, updating'')]
                else w);
          t1 = t\<lparr>trackedProcesses := AList.update p \<lparr>pid = p, name = nm, startTime = now\<rparr> (trackedProcesses t)\<rparr>
      in (t1, proc_log w1 [CStr (''[ProcessTracker] Now tracking process '' @ show_int p @ '' ('' @ nm @ ''). Total: ''
                                  @ show_nat (length (trackedProcesses t1)))]))"

definition untrackProcess :: "ProcessTracker \<Rightarrow> proc_env \<Rightarrow> int \<Rightarrow> ProcessTracker \<times> proc_env" where
  "untrackProcess t w p =
     (case map_of (trackedProcesses t) p of
        None \<Rightarrow> (t, w)
      | Some pinfo \<Rightarrow>
          (let t1 = t\<lparr>trackedProcesses := AList.delete p (trackedProcesses t)\<rparr>
           in (t1, proc_log w [CStr (''[ProcessTracker] Untracked process '' @ show_int p @ '' ('' @ name pinfo
                                      @ ''). Remaining: '' @ show_nat (length (trackedProcesses t1)))])))"

text \<open>
  The \<^verbatim>\<open>try { process.kill(pid, signal); ... } catch (error) { ... }\<close> block that
  \<^verbatim>\<open>killProcess\<close> and the loop of \<^verbatim>\<open>killAllTrackedProcesses\<close> both contain.
\<close>

definition try_kill :: "proc_env \<Rightarrow> int \<Rightarrow> ProcessInfo \<Rightarrow> KillSignal \<Rightarrow> proc_env" where
  "try_kill w p pinfo sig =
     (case process_kill w p sig of
        (None, w1) \<Rightarrow>
          proc_log w1 [CStr (''[ProcessTracker] Sent '' @ signal_name sig @ '' to process '' @ show_int p
                             @ '' ('' @ name pinfo @ '')'')]
      | (Some err, w1) \<Rightarrow>
          (if err_code err = Some ''ESRCH''
           then proc_log w1 [CStr (''[ProcessTracker] Process '' @ show_int p @ '' ('' @ name pinfo @ '') already exited'')]
           else proc_error w1 [CStr (''[ProcessTracker] Failed to kill process '' @ show_int p @ '':''), CErr err]))"

text \<open>The signal parameter defaults to \<^verbatim>\<open>'SIGTERM'\<close> when it is not passed.\<close>

definition default_signal :: "KillSignal option \<Rightarrow> KillSignal" where
  "default_signal s = (case s of None \<Rightarrow> SIGTERM | Some sig \<Rightarrow> sig)"

definition killProcess :: "ProcessTracker \<Rightarrow> proc_env \<Rightarrow> int \<Rightarrow> KillSignal option \<Rightarrow> bool \<times> ProcessTracker \<times> proc_env" where
  "killProcess t w p s =
     (let sig = default_signal s in
      case map_of (trackedProcesses t) p of
        None \<Rightarrow> (False, t, w)
      | Some pinfo \<Rightarrow>
          (let w1 = try_kill w p pinfo sig
           in (True, t\<lparr>trackedProcesses := AList.delete p (trackedProcesses t)\<rparr>, w1)))"

text \<open>The \<^verbatim>\<open>for (const [pid, info] of entries)\<close> loop over the copied entries.\<close>

fun kill_entries :: "KillSignal \<Rightarrow> (int \<times> ProcessInfo) list \<Rightarrow> proc_env \<Rightarrow> proc_env" where
  "kill_entries sig [] w = w"
| "kill_entries sig ((p, pinfo) # entries) w = kill_entries sig entries (try_kill w p pinfo sig)"

definition killAllTrackedProcesses :: "ProcessTracker \<Rightarrow> proc_env \<Rightarrow> KillSignal option \<Rightarrow> ProcessTracker \<times> proc_env" where
  "killAllTrackedProcesses t w s =
     (let sig = default_signal s;
          count = length (trackedProcesses t)
      in if count = 0 then (t, proc_log w [CStr ''[ProcessTracker] No tracked processes to kill''])
         else
           (let w1 = proc_log w [CStr (''[ProcessTracker] Killing '' @ show_nat count @ '' tracked processes with ''
                                       @ signal_name sig)];
                entries = trackedProcesses t;
                w2 = kill_entries sig entries w1
            in (t\<lparr>trackedProcesses := []\<rparr>, proc_log w2 [CStr ''[ProcessTracker] All tracked processes cleared''])))"

definition forceKillAll :: "ProcessTracker \<Rightarrow> proc_env \<Rightarrow> ProcessTracker \<times> proc_env" where
  "forceKillAll t w = killAllTrackedProcesses t w (Some SIGKILL)"

section \<open>Observations\<close>

text \<open>The calls of \<^verbatim>\<open>fs.appendFileSync\<close> among the recorded calls.\<close>

fun is_append :: "sys_call \<Rightarrow> bool" where
  "is_append (AppendFileSync p c) = True"
| "is_append c = False"

definition append_calls :: "world \<Rightarrow> sys_call list" where
  "append_calls w = filter is_append (calls w)"

text \<open>
  A rotation check is a run of \<^verbatim>\<open>rotateIfNeeded\<close>. Each run starts by probing the live log
  file with \<^verbatim>\<open>fs.existsSync\<close>, and nothing else probes that path: the checks made so far
  are the probes of the live file among the recorded calls.
\<close>

definition rotation_checks :: "string \<Rightarrow> world \<Rightarrow> nat" where
  "rotation_checks p w = length (filter (\<lambda>c. c = ExistsSync p) (calls w))"

text \<open>
  File logging is initialized on the directory \<open>d\<close>: the state \<^verbatim>\<open>initFileLogging\<close> leaves
  when it succeeds.
\<close>

definition file_logging_ready :: "Logger \<Rightarrow> string \<Rightarrow> bool" where
  "file_logging_ready L d \<longleftrightarrow> d \<noteq> [] \<and> logsDir L = Some d \<and> logFilePath L = Some (path_join d ''app.log'')"

text \<open>The leveled method of a severity.\<close>

fun level_method :: "LogLevel \<Rightarrow> Logger \<Rightarrow> world \<Rightarrow> string \<Rightarrow> string \<Rightarrow> jsval \<Rightarrow> outcome" where
  "level_method DEBUG = debug"
| "level_method INFO = info"
| "level_method WARN = warn"
| "level_method ERROR = error"

text \<open>Disk writes one after the other.\<close>

fun writes :: "Logger \<Rightarrow> world \<Rightarrow> string list \<Rightarrow> Logger \<times> world" where
  "writes L w [] = (L, w)"
| "writes L w (c # cs) = (case writeToFile L w c of (L1, w1) \<Rightarrow> writes L1 w1 cs)"

text \<open>
  A call of a logging method: the timestamp that \<^verbatim>\<open>formatTimestamp()\<close> returns at the call,
  the severity, the message and the context (\<open>JUndefined\<close> when none is passed). Calls one
  after the other stop at the first that throws or does not return.
\<close>

type_synonym log_call = "string \<times> LogLevel \<times> string \<times> jsval"

fun logs :: "Logger \<Rightarrow> world \<Rightarrow> log_call list \<Rightarrow> outcome" where
  "logs L w [] = Some (None, L, w)"
| "logs L w (c # cs) =
     (case c of (ts, lvl, message, ctx) \<Rightarrow>
        (case log L w ts lvl message ctx of
           Some (None, L1, w1) \<Rightarrow> logs L1 w1 cs
         | r \<Rightarrow> r))"

text \<open>The line a call formats for the file, and whether a call passes the level filter.\<close>

definition entry_of :: "jsobj list \<Rightarrow> string \<Rightarrow> log_call \<Rightarrow> (js_error + string) option" where
  "entry_of h nm c = (case c of (ts, lvl, message, ctx) \<Rightarrow> logEntry h (log_prefix ts lvl nm) message ctx)"

definition passes :: "Logger \<Rightarrow> log_call \<Rightarrow> bool" where
  "passes L c \<longleftrightarrow> level_num (level (options L)) \<le> level_num (fst (snd c))"

text \<open>
  Conditions on an object graph. \<open>R\<close> is a set of addresses of the store that is closed
  under the references its objects hold; the graph of a value is the least such set that
  has the value's own address, and the whole store is the greatest. None of the objects
  of the graph holds a BigInt, and none has a callable \<^verbatim>\<open>toJSON\<close>.
\<close>

fun obj_vals :: "jsobj \<Rightarrow> jsval list" where
  "obj_vals (PlainObject ps) = map snd ps"
| "obj_vals (ArrayObject vs) = vs"
| "obj_vals (ErrorObject n m st) = [n, m, st]"

fun is_bigint :: "jsval \<Rightarrow> bool" where
  "is_bigint (JBigInt i) = True"
| "is_bigint v = False"

fun val_closed :: "addr set \<Rightarrow> jsval \<Rightarrow> bool" where
  "val_closed R (JRef a) = (a \<in> R)"
| "val_closed R v = True"

definition graph_closed :: "jsobj list \<Rightarrow> addr set \<Rightarrow> bool" where
  "graph_closed h R \<longleftrightarrow>
     (\<forall>a\<in>R. case heap_get h a of None \<Rightarrow> False | Some obj \<Rightarrow> \<forall>v\<in>set (obj_vals obj). val_closed R v)"

definition bigint_free :: "jsobj list \<Rightarrow> addr set \<Rightarrow> bool" where
  "bigint_free h R \<longleftrightarrow>
     (\<forall>a\<in>R. case heap_get h a of None \<Rightarrow> True | Some obj \<Rightarrow> \<forall>v\<in>set (obj_vals obj). \<not> is_bigint v)"

definition toJSON_free :: "jsobj list \<Rightarrow> addr set \<Rightarrow> bool" where
  "toJSON_free h R \<longleftrightarrow>
     (\<forall>a\<in>R. case heap_get h a of None \<Rightarrow> True | Some obj \<Rightarrow> toJSON_method obj = None)"

text \<open>
  The invariant of a serialization of a value of the graph \<open>R\<close> that started on a store of
  \<open>N\<close> objects: the store has only grown, and every object of the graph and every object
  allocated since has no callable \<^verbatim>\<open>toJSON\<close> and holds only values that are no BigInt and
  refer into the graph; every object on the stack is in the store and, when it is in the
  graph, has been seen. \<open>unseen\<close> counts the objects of the graph that the replacer has
  not met yet.
\<close>

definition val_ok :: "addr set \<Rightarrow> jsval \<Rightarrow> bool" where
  "val_ok R v \<longleftrightarrow> val_closed R v \<and> \<not> is_bigint v"

definition obj_ok :: "addr set \<Rightarrow> jsobj \<Rightarrow> bool" where
  "obj_ok R obj \<longleftrightarrow> toJSON_method obj = None \<and> (\<forall>v\<in>set (obj_vals obj). val_ok R v)"

definition ser_inv :: "nat \<Rightarrow> addr set \<Rightarrow> json_state \<Rightarrow> bool" where
  "ser_inv N R s \<longleftrightarrow>
     N \<le> length (js_heap s)
     \<and> (\<forall>a\<in>R. a < N)
     \<and> (\<forall>a obj. heap_get (js_heap s) a = Some obj \<and> (a \<in> R \<or> N \<le> a) \<longrightarrow> obj_ok R obj)
     \<and> (\<forall>x\<in>set (js_stack s). x < length (js_heap s) \<and> (x \<in> R \<longrightarrow> x \<in> js_seen s))"

definition step_ok :: "nat \<Rightarrow> addr set \<Rightarrow> json_state \<Rightarrow> json_state \<Rightarrow> bool" where
  "step_ok N R s s' \<longleftrightarrow>
     ser_inv N R s' \<and> js_seen s \<subseteq> js_seen s' \<and> js_stack s' = js_stack s
     \<and> js_indent s' = js_indent s \<and> js_gap s' = js_gap s"

definition unseen :: "addr set \<Rightarrow> json_state \<Rightarrow> nat" where
  "unseen R s = card (R - js_seen s)"
section \<open>Concrete inputs\<close>

subsection \<open>Process tracker\<close>

text \<open>
  An operating system where process 202 has already exited (\<^verbatim>\<open>ESRCH\<close>), process 303
  may not be signalled (\<^verbatim>\<open>EPERM\<close>) and every other signal is delivered.
\<close>

definition esrch :: js_error where
  "esrch = JsError ''Error'' ''kill ESRCH'' (Some ''ESRCH'')"

definition eperm :: js_error where
  "eperm = JsError ''Error'' ''kill EPERM'' (Some ''EPERM'')"

definition env_abc :: proc_env where
  "env_abc = \<lparr>kill_outcome = (\<lambda>p sig. if p = 202 then Some esrch else if p = 303 then Some eperm else None),
              kill_calls = [], proc_console = []\<rparr>"

definition tracker_abc :: ProcessTracker where
  "tracker_abc = \<lparr>trackedProcesses =
      [(101, \<lparr>pid = 101, name = ''a'', startTime = 0\<rparr>),
       (202, \<lparr>pid = 202, name = ''b'', startTime = 1\<rparr>),
       (303, \<lparr>pid = 303, name = ''c'', startTime = 2\<rparr>)]\<rparr>"

subsection \<open>Logger\<close>

text \<open>
  An environment with an empty logs directory where \<^verbatim>\<open>app.getPath('userData')\<close> returns
  \<^verbatim>\<open>/u\<close> and no file operation fails, and one where \<^verbatim>\<open>fs.statSync\<close> always throws.
\<close>

definition world0 :: world where
  "world0 = \<lparr>heap = [], files = (\<lambda>p. None), dirs = {''/u/logs''}, userData = Inr ''/u'',
             fs_fault = (\<lambda>c. None), calls = [], console = []\<rparr>"

definition eacces :: js_error where
  "eacces = JsError ''Error'' ''EACCES: permission denied'' (Some ''EACCES'')"

fun stat_denied :: "sys_call \<Rightarrow> js_error option" where
  "stat_denied (StatSync p) = Some eacces"
| "stat_denied c = None"

definition world_stat_denied :: world where
  "world_stat_denied = world0\<lparr>files := (\<lambda>p. if p = ''/u/logs/app.log'' then Some ''old'' else None),
                              fs_fault := stat_denied\<rparr>"

text \<open>An initialized logger on \<^verbatim>\<open>/u/logs\<close> with the given options.\<close>

definition ready_logger :: "RequiredLoggerOptions \<Rightarrow> Logger" where
  "ready_logger opts =
     \<lparr>moduleName = ''test'', options = opts, logFilePath = Some ''/u/logs/app.log'', logsDir = Some ''/u/logs'',
      fileLoggingInitialized = True, logWriteCount = 0, logBuffer = []\<rparr>"

definition logger_every_2 :: Logger where
  "logger_every_2 = ready_logger (DEFAULT_OPTIONS\<lparr>fileLogging := True, rotationCheckInterval := 2\<rparr>)"

text \<open>The platform is not ready: \<^verbatim>\<open>app.getPath\<close> throws.\<close>

definition app_not_ready :: js_error where
  "app_not_ready = JsError ''Error'' ''app not ready'' None"

definition world_not_ready :: world where
  "world_not_ready = world0\<lparr>userData := Inl app_not_ready\<rparr>"

definition opts_deferred :: LoggerOptions where
  "opts_deferred = \<lparr>opt_level = None, opt_fileLogging = Some True, opt_maxFileSize = None, opt_maxBackups = None,
                     opt_deferInit = Some True, opt_rotationCheckInterval = None, opt_bufferSize = None\<rparr>"

text \<open>A store with the context object \<^verbatim>\<open>{user: 'u1'}\<close>, two loggers and two calls.\<close>

definition world_ctx :: world where
  "world_ctx = world0\<lparr>heap := [PlainObject [(''user'', JString ''u1'')]]\<rparr>"

definition logger_buffer_2 :: Logger where
  "logger_buffer_2 = ready_logger (DEFAULT_OPTIONS\<lparr>fileLogging := True, bufferSize := 2\<rparr>)"

definition logger_unbuffered :: Logger where
  "logger_unbuffered = ready_logger (DEFAULT_OPTIONS\<lparr>fileLogging := True\<rparr>)"

definition calls_2 :: "log_call list" where
  "calls_2 = [(''T1'', INFO, ''login ok'', JRef 0), (''T2'', WARN, ''slow'', JUndefined)]"

definition lines_2 :: "string list" where
  "lines_2 =
     [''[T1] [INFO] [test] login ok {'' @ [CHR 0x0A] @ ''  '' @ [CHR 0x22] @ ''user'' @ [CHR 0x22] @ '': ''
        @ [CHR 0x22] @ ''u1'' @ [CHR 0x22, CHR 0x0A] @ ''}'' @ [CHR 0x0A],
      ''[T2] [WARN] [test] slow'' @ [CHR 0x0A]]"

text \<open>
  Logs directories holding the live file and two backups, and loggers that rotate at one
  byte keeping \<^verbatim>\<open>maxBackups = 3\<close> and \<^verbatim>\<open>maxBackups = 2\<close>.
\<close>

definition world_backups :: world where
  "world_backups = world0\<lparr>files := (\<lambda>p. if p = ''/u/logs/app.log'' then Some ''xx''
                                       else if p = ''/u/logs/app.log.1'' then Some ''b1''
                                       else if p = ''/u/logs/app.log.2'' then Some ''b2'' else None)\<rparr>"

definition logger_keep_3 :: Logger where
  "logger_keep_3 = ready_logger (DEFAULT_OPTIONS\<lparr>fileLogging := True, maxFileSize := 1, maxBackups := 3\<rparr>)"

definition logger_keep_2 :: Logger where
  "logger_keep_2 = ready_logger (DEFAULT_OPTIONS\<lparr>fileLogging := True, maxFileSize := 1, maxBackups := 2,
                                                rotationCheckInterval := 1\<rparr>)"

text \<open>
  A store holding \<^verbatim>\<open>new Error('boom')\<close> at address 0, and a logger with the default
  options (console only).
\<close>

definition world_err :: world where
  "world_err = world0\<lparr>heap := [ErrorObject (JString ''Error'') (JString ''boom'') (JString ''at f'')]\<rparr>"

definition logger_console :: Logger where
  "logger_console = fst (new_Logger world0 ''test'' \<lparr>opt_level = None, opt_fileLogging = None, opt_maxFileSize = None,
      opt_maxBackups = None, opt_deferInit = None, opt_rotationCheckInterval = None, opt_bufferSize = None\<rparr>)"

subsection \<open>Stores for the serializer\<close>


definition heap_bigint :: "jsobj list" where
  "heap_bigint = [PlainObject [(''n'', JBigInt 1)]]"





section \<open>Auxiliary facts\<close>

lemma triple_collapse: "x = (fst x, fst (snd x), snd (snd x))"
  by simp

subsection \<open>Decimal rendering is injective\<close>

lemma digit_char_inj: "a < 10 \<Longrightarrow> b < 10 \<Longrightarrow> digit_char a = digit_char b \<Longrightarrow> a = b"
proof -
  assume a: "a < 10" and b: "b < 10" and eq: "digit_char a = digit_char b"
  have d: "distinct ''0123456789''" by simp
  have "length ''0123456789'' = 10" by simp
  with a b d eq show ?thesis
    unfolding digit_char_def by (simp add: nth_eq_iff_index_eq)
qed

lemma show_nat_nonempty: "show_nat n \<noteq> []" "[] \<noteq> show_nat n"
  by (subst show_nat.simps, simp)+

lemma last_show_nat: "last (show_nat n) = digit_char (n mod 10)"
  by (subst show_nat.simps) simp

lemma butlast_show_nat: "butlast (show_nat n) = (if n < 10 then [] else show_nat (n div 10))"
  by (subst show_nat.simps) simp

lemma show_nat_inj: "show_nat m = show_nat n \<Longrightarrow> m = n"
proof (induction m arbitrary: n rule: less_induct)
  case (less m)
  from less.prems have "last (show_nat m) = last (show_nat n)" by simp
  then have "digit_char (m mod 10) = digit_char (n mod 10)" by (simp add: last_show_nat)
  then have md: "m mod 10 = n mod 10" by (rule digit_char_inj [rotated 2]) simp_all
  from less.prems have bl: "butlast (show_nat m) = butlast (show_nat n)" by simp
  show ?case
  proof (cases "m < 10")
    case True
    with bl have "n < 10"
      by (auto simp: butlast_show_nat show_nat_nonempty split: if_splits)
    with True md show ?thesis by simp
  next
    case False
    with bl have n: "\<not> n < 10"
      by (auto simp: butlast_show_nat show_nat_nonempty split: if_splits)
    with False bl have "show_nat (m div 10) = show_nat (n div 10)"
      by (simp add: butlast_show_nat)
    moreover from False have "m div 10 < m" by simp
    ultimately have "m div 10 = n div 10" by (rule less.IH [rotated])
    with md show ?thesis by (metis div_mult_mod_eq)
  qed
qed

lemma show_int_inj: "0 \<le> i \<Longrightarrow> 0 \<le> j \<Longrightarrow> show_int i = show_int j \<Longrightarrow> i = j"
  by (auto simp: show_int_def dest: show_nat_inj)

lemma show_int_1: "show_int 1 = ''1''"
  by (simp add: show_int_def show_nat.simps digit_char_def)

section \<open>Properties of safeStringify\<close>

subsection \<open>The toJSON step\<close>

lemma heap_get_new [simp]: "heap_get (h @ [x]) (length h) = Some x"
  by (simp add: heap_get_def)

lemma heap_get_old: "a < length h \<Longrightarrow> heap_get (h @ xs) a = heap_get h a"
  by (simp add: heap_get_def nth_append)

lemma heap_get_Some: "heap_get h a = Some obj \<Longrightarrow> a < length h \<and> obj \<in> set h"
  by (auto simp: heap_get_def split: if_splits)

lemma heap_get_append_cases:
  assumes "heap_get (h @ [x]) a = Some obj"
  shows "(a < length h \<and> heap_get h a = Some obj) \<or> (a = length h \<and> obj = x)"
  using assms by (auto simp: heap_get_def nth_append split: if_splits)

lemma toJSON_method_simps [simp]:
  "toJSON_method (ArrayObject vs) = None"
  "toJSON_method (ErrorObject nm msg st) = None"
  "toJSON_method (PlainObject []) = None"
  "toJSON_method (PlainObject ((k, v) # ps)) =
     (if k = ''toJSON'' then (case v of JFunction f \<Rightarrow> Some f | _ \<Rightarrow> None) else toJSON_method (PlainObject ps))"
  by (simp_all add: toJSON_method_def)

lemma call_toJSON_not_ref: "\<forall>a. v \<noteq> JRef a \<Longrightarrow> call_toJSON h key v = Returns v"
  by (cases v) (simp_all add: call_toJSON_def)

lemma call_toJSON_none:
  assumes "\<And>obj. heap_get h a = Some obj \<Longrightarrow> toJSON_method obj = None"
  shows "call_toJSON h key (JRef a) = Returns (JRef a)"
  using assms by (simp add: call_toJSON_def split: option.split)

subsection \<open>One step of SerializeJSONProperty\<close>

lemma property_not_ref:
  assumes "\<forall>a. v \<noteq> JRef a" and "\<not> is_bigint v"
  shows "\<exists>r. SerializeJSONProperty (Suc n) s key v = Some (Inr (r, s))"
  using assms by (cases v) (simp_all add: replacer_def call_toJSON_def)

lemma property_seen:
  assumes "a \<in> js_seen s" and "call_toJSON (js_heap s) key (JRef a) = Returns (JRef a)"
  shows "SerializeJSONProperty (Suc n) s key (JRef a) = Some (Inr (Some (QuoteJSONString ''[Circular]''), s))"
  using assms by (simp add: replacer_def)

lemma property_plain:
  assumes "a \<notin> js_seen s" and "heap_get (js_heap s) a = Some (PlainObject ps)"
    and "toJSON_method (PlainObject ps) = None"
  shows "SerializeJSONProperty (Suc n) s key (JRef a) =
     (case SerializeJSONObject n (s\<lparr>js_seen := insert a (js_seen s)\<rparr>) a ps of
        None \<Rightarrow> None
      | Some (Inl e) \<Rightarrow> Some (Inl e)
      | Some (Inr (str, s2)) \<Rightarrow> Some (Inr (Some str, s2)))"
  using assms by (simp add: replacer_def call_toJSON_def Let_def del: SerializeJSONObject.simps)

lemma property_array:
  assumes "a \<notin> js_seen s" and "heap_get (js_heap s) a = Some (ArrayObject vs)"
  shows "SerializeJSONProperty (Suc n) s key (JRef a) =
     (case SerializeJSONArray n (s\<lparr>js_seen := insert a (js_seen s)\<rparr>) a vs of
        None \<Rightarrow> None
      | Some (Inl e) \<Rightarrow> Some (Inl e)
      | Some (Inr (str, s2)) \<Rightarrow> Some (Inr (Some str, s2)))"
  using assms by (simp add: replacer_def call_toJSON_def Let_def del: SerializeJSONArray.simps)

lemma property_error:
  assumes "a \<notin> js_seen s" and "heap_get (js_heap s) a = Some (ErrorObject nm msg st)"
  shows "SerializeJSONProperty (Suc n) s key (JRef a) =
     (case SerializeJSONObject n
             (s\<lparr>js_seen := insert a (js_seen s),
                js_heap := js_heap s @ [PlainObject [(''name'', nm), (''message'', msg), (''stack'', st)]]\<rparr>)
             (length (js_heap s)) [(''name'', nm), (''message'', msg), (''stack'', st)] of
        None \<Rightarrow> None
      | Some (Inl e) \<Rightarrow> Some (Inl e)
      | Some (Inr (str, s2)) \<Rightarrow> Some (Inr (Some str, s2)))"
  using assms by (simp add: replacer_def call_toJSON_def Let_def del: SerializeJSONObject.simps)

subsection \<open>The invariant\<close>

lemma ser_inv_finite: "ser_inv N R s \<Longrightarrow> finite R"
  unfolding ser_inv_def finite_nat_set_iff_bounded by blast

lemma ser_inv_graph:
  assumes "ser_inv N R s" and "a \<in> R"
  shows "\<exists>obj. heap_get (js_heap s) a = Some obj \<and> obj_ok R obj"
proof -
  from assms have "a < length (js_heap s)" by (fastforce simp: ser_inv_def)
  then obtain obj where "heap_get (js_heap s) a = Some obj" by (simp add: heap_get_def)
  with assms show ?thesis by (auto simp: ser_inv_def)
qed

lemma step_ok_refl: "ser_inv N R s \<Longrightarrow> step_ok N R s s"
  by (simp add: step_ok_def)

lemma step_ok_trans: "step_ok N R s s1 \<Longrightarrow> step_ok N R s1 s2 \<Longrightarrow> step_ok N R s s2"
  by (auto simp: step_ok_def)

lemma unseen_mono: "finite R \<Longrightarrow> js_seen s \<subseteq> js_seen s' \<Longrightarrow> unseen R s' \<le> unseen R s"
  unfolding unseen_def by (intro card_mono) auto

lemma unseen_insert:
  assumes "finite R" and "a \<in> R" and "a \<notin> js_seen s"
  shows "unseen R (s\<lparr>js_seen := insert a (js_seen s)\<rparr>) < unseen R s"
proof -
  have "R - insert a (js_seen s) \<subset> R - js_seen s"
    using assms by auto
  then show ?thesis
    unfolding unseen_def using assms(1) by (simp add: psubset_card_mono)
qed

lemma unseen_heap [simp]: "unseen R (s\<lparr>js_heap := h\<rparr>) = unseen R s"
  by (simp add: unseen_def)

lemma unseen_stack [simp]: "unseen R (s\<lparr>js_stack := st, js_indent := i\<rparr>) = unseen R s"
  by (simp add: unseen_def)

text \<open>
  Serializing the members of an object or the elements of an array succeeds when
  serializing each value does.
\<close>

lemma members_ok:
  assumes P: "\<And>s key v. ser_inv N R s \<Longrightarrow> val_ok R v \<Longrightarrow> unseen R s < n \<Longrightarrow>
                \<exists>r s'. SerializeJSONProperty n s key v = Some (Inr (r, s')) \<and> step_ok N R s s'"
    and "ser_inv N R s" and "\<forall>v\<in>set (map snd ps). val_ok R v" and "unseen R s < n"
  shows "\<exists>partial s'. object_members n s ps = Some (Inr (partial, s')) \<and> step_ok N R s s'"
  using assms(2-)
proof (induction ps arbitrary: s)
  case Nil
  then show ?case by (simp add: step_ok_refl)
next
  case (Cons kv ps)
  obtain k v where kv: "kv = (k, v)" by (cases kv)
  from Cons.prems(2) kv have v: "val_ok R v" and rest: "\<forall>v\<in>set (map snd ps). val_ok R v" by simp_all
  from P [OF Cons.prems(1) v Cons.prems(3), of k] obtain r s1 where
    1: "SerializeJSONProperty n s k v = Some (Inr (r, s1))" and ok1: "step_ok N R s s1" by blast
  from ok1 have inv1: "ser_inv N R s1" and "js_seen s \<subseteq> js_seen s1" by (simp_all add: step_ok_def)
  with Cons.prems(3) have u1: "unseen R s1 < n"
    using unseen_mono [OF ser_inv_finite [OF inv1], of s s1] by simp
  from Cons.IH [OF inv1 rest u1] obtain partial s2 where
    2: "object_members n s1 ps = Some (Inr (partial, s2))" and ok2: "step_ok N R s1 s2" by blast
  from 1 2 step_ok_trans [OF ok1 ok2] show ?case by (simp add: kv)
qed

lemma elements_ok:
  assumes P: "\<And>s key v. ser_inv N R s \<Longrightarrow> val_ok R v \<Longrightarrow> unseen R s < n \<Longrightarrow>
                \<exists>r s'. SerializeJSONProperty n s key v = Some (Inr (r, s')) \<and> step_ok N R s s'"
    and "ser_inv N R s" and "\<forall>v\<in>set vs. val_ok R v" and "unseen R s < n"
  shows "\<exists>partial s'. array_elements n s i vs = Some (Inr (partial, s')) \<and> step_ok N R s s'"
  using assms(2-)
proof (induction vs arbitrary: s i)
  case Nil
  then show ?case by (simp add: step_ok_refl)
next
  case (Cons v vs)
  from Cons.prems(2) have v: "val_ok R v" and rest: "\<forall>v\<in>set vs. val_ok R v" by simp_all
  from P [OF Cons.prems(1) v Cons.prems(3), of "show_nat i"] obtain r s1 where
    1: "SerializeJSONProperty n s (show_nat i) v = Some (Inr (r, s1))" and ok1: "step_ok N R s s1" by blast
  from ok1 have inv1: "ser_inv N R s1" and "js_seen s \<subseteq> js_seen s1" by (simp_all add: step_ok_def)
  with Cons.prems(3) have u1: "unseen R s1 < n"
    using unseen_mono [OF ser_inv_finite [OF inv1], of s s1] by simp
  from Cons.IH [OF inv1 rest u1, of "Suc i"] obtain partial s2 where
    2: "array_elements n s1 (Suc i) vs = Some (Inr (partial, s2))" and ok2: "step_ok N R s1 s2" by blast
  from 1 2 step_ok_trans [OF ok1 ok2] show ?case by simp
qed

text \<open>Entering an object that is not on the stack: push, serialize the members, pop.\<close>

lemma push_inv:
  assumes "ser_inv N R s" and "a < length (js_heap s)" and "a \<in> R \<longrightarrow> a \<in> js_seen s"
  shows "ser_inv N R (s\<lparr>js_stack := js_stack s @ [a], js_indent := i\<rparr>)"
  using assms by (auto simp: ser_inv_def)

lemma pop_ok:
  assumes "step_ok N R (s\<lparr>js_stack := js_stack s @ [a], js_indent := i\<rparr>) s2"
  shows "step_ok N R s (s2\<lparr>js_stack := butlast (js_stack s2), js_indent := js_indent s\<rparr>)"
  using assms by (auto simp: step_ok_def ser_inv_def)

lemma object_ok:
  assumes P: "\<And>s key v. ser_inv N R s \<Longrightarrow> val_ok R v \<Longrightarrow> unseen R s < n \<Longrightarrow>
                \<exists>r s'. SerializeJSONProperty n s key v = Some (Inr (r, s')) \<and> step_ok N R s s'"
    and "ser_inv N R s" and "a \<notin> set (js_stack s)" and "a < length (js_heap s)" and "a \<in> R \<longrightarrow> a \<in> js_seen s"
    and "\<forall>v\<in>set (map snd ps). val_ok R v" and "unseen R s < n"
  shows "\<exists>str s'. SerializeJSONObject n s a ps = Some (Inr (str, s')) \<and> step_ok N R s s'"
proof -
  define s1 where "s1 = s\<lparr>js_stack := js_stack s @ [a], js_indent := js_indent s @ js_gap s\<rparr>"
  have inv1: "ser_inv N R s1" unfolding s1_def by (rule push_inv [OF assms(2,4,5)])
  have u1: "unseen R s1 < n" using assms(7) by (simp add: s1_def)
  from members_ok [OF P inv1 assms(6) u1] obtain partial s2 where
    m: "object_members n s1 ps = Some (Inr (partial, s2))" and ok: "step_ok N R s1 s2" by blast
  from ok have "step_ok N R s (s2\<lparr>js_stack := butlast (js_stack s2), js_indent := js_indent s\<rparr>)"
    unfolding s1_def by (rule pop_ok)
  with m assms(3) show ?thesis
    by (simp add: Let_def s1_def [symmetric])
qed

lemma array_ok:
  assumes P: "\<And>s key v. ser_inv N R s \<Longrightarrow> val_ok R v \<Longrightarrow> unseen R s < n \<Longrightarrow>
                \<exists>r s'. SerializeJSONProperty n s key v = Some (Inr (r, s')) \<and> step_ok N R s s'"
    and "ser_inv N R s" and "a \<notin> set (js_stack s)" and "a < length (js_heap s)" and "a \<in> R \<longrightarrow> a \<in> js_seen s"
    and "\<forall>v\<in>set vs. val_ok R v" and "unseen R s < n"
  shows "\<exists>str s'. SerializeJSONArray n s a vs = Some (Inr (str, s')) \<and> step_ok N R s s'"
proof -
  define s1 where "s1 = s\<lparr>js_stack := js_stack s @ [a], js_indent := js_indent s @ js_gap s\<rparr>"
  have inv1: "ser_inv N R s1" unfolding s1_def by (rule push_inv [OF assms(2,4,5)])
  have u1: "unseen R s1 < n" using assms(7) by (simp add: s1_def)
  from elements_ok [OF P inv1 assms(6) u1, of 0] obtain partial s2 where
    m: "array_elements n s1 0 vs = Some (Inr (partial, s2))" and ok: "step_ok N R s1 s2" by blast
  from ok have "step_ok N R s (s2\<lparr>js_stack := butlast (js_stack s2), js_indent := js_indent s\<rparr>)"
    unfolding s1_def by (rule pop_ok)
  with m assms(3) show ?thesis
    by (simp add: Let_def s1_def [symmetric])
qed

subsection \<open>The serializer returns\<close>

text \<open>
  Under the invariant, with a budget above the number of unseen objects of the graph,
  serializing a value returns a result: it neither runs out of budget nor throws. Every
  object enters \<^verbatim>\<open>seen\<close> before its members are visited, so each nested call has fewer
  unseen objects than budget; the cycle check of \<^verbatim>\<open>JSON.stringify\<close> never fires, because
  an object on the stack has been seen (or is a fresh \<^verbatim>\<open>{name, message, stack}\<close>) and a
  seen object is replaced by the placeholder before it could be entered again.
\<close>

lemma property_ok:
  assumes "ser_inv N R s" and "val_ok R v" and "unseen R s < n"
  shows "\<exists>r s'. SerializeJSONProperty n s key v = Some (Inr (r, s')) \<and> step_ok N R s s'"
  using assms
proof (induction n arbitrary: s key v)
  case 0
  then show ?case by simp
next
  case (Suc n)
  note P = Suc.IH
  note fin = ser_inv_finite [OF Suc.prems(1)]
  show ?case
  proof (cases "\<exists>a. v = JRef a")
    case False
    with Suc.prems(2) have "\<exists>r. SerializeJSONProperty (Suc n) s key v = Some (Inr (r, s))"
      by (intro property_not_ref) (simp_all add: val_ok_def)
    with Suc.prems(1) show ?thesis by (auto intro: step_ok_refl)
  next
    case True
    then obtain a where v: "v = JRef a" by blast
    with Suc.prems(2) have aR: "a \<in> R" by (simp add: val_ok_def)
    from ser_inv_graph [OF Suc.prems(1) aR] obtain obj where
      obj: "heap_get (js_heap s) a = Some obj" and ok: "obj_ok R obj" by blast
    from ok have nt: "toJSON_method obj = None" and vals: "\<forall>v\<in>set (obj_vals obj). val_ok R v"
      by (simp_all add: obj_ok_def)
    from heap_get_Some [OF obj] have al: "a < length (js_heap s)" by simp
    show ?thesis
    proof (cases "a \<in> js_seen s")
      case True
      from obj nt have "call_toJSON (js_heap s) key (JRef a) = Returns (JRef a)"
        by (intro call_toJSON_none) simp
      from property_seen [OF True this, of n] Suc.prems(1) show ?thesis
        unfolding v by (auto simp del: SerializeJSONProperty.simps intro: step_ok_refl)
    next
      case False
      define s0 where "s0 = s\<lparr>js_seen := insert a (js_seen s)\<rparr>"
      from unseen_insert [OF fin aR False] Suc.prems(3) have u0: "unseen R s0 < n" by (simp add: s0_def)
      from Suc.prems(1) have inv0: "ser_inv N R s0" by (auto simp: ser_inv_def s0_def)
      from Suc.prems(1) False aR have ns: "a \<notin> set (js_stack s0)" by (auto simp: ser_inv_def s0_def)
      have ok0: "step_ok N R s s0" using inv0 by (auto simp: step_ok_def s0_def)
      have as0: "a < length (js_heap s0)" "a \<in> R \<longrightarrow> a \<in> js_seen s0" using al by (simp_all add: s0_def)
      show ?thesis
      proof (cases obj)
        case (PlainObject ps)
        with vals have pv: "\<forall>v\<in>set (map snd ps). val_ok R v" by simp
        from object_ok [OF P inv0 ns as0 pv u0] obtain str s' where
          r: "SerializeJSONObject n s0 a ps = Some (Inr (str, s'))" and ok: "step_ok N R s0 s'" by blast
        from obj PlainObject have g: "heap_get (js_heap s) a = Some (PlainObject ps)" by simp
        from nt PlainObject have "toJSON_method (PlainObject ps) = None" by simp
        from property_plain [OF False g this, of n key] r have "SerializeJSONProperty (Suc n) s key v = Some (Inr (Some str, s'))"
          by (simp add: v s0_def del: SerializeJSONProperty.simps SerializeJSONObject.simps)
        with step_ok_trans [OF ok0 ok] show ?thesis by blast
      next
        case (ArrayObject vs)
        with vals have pv: "\<forall>v\<in>set vs. val_ok R v" by simp
        from array_ok [OF P inv0 ns as0 pv u0] obtain str s' where
          r: "SerializeJSONArray n s0 a vs = Some (Inr (str, s'))" and ok: "step_ok N R s0 s'" by blast
        from obj ArrayObject have "heap_get (js_heap s) a = Some (ArrayObject vs)" by simp
        from property_array [OF False this, of n key] r have "SerializeJSONProperty (Suc n) s key v = Some (Inr (Some str, s'))"
          by (simp add: v s0_def del: SerializeJSONProperty.simps SerializeJSONArray.simps)
        with step_ok_trans [OF ok0 ok] show ?thesis by blast
      next
        case (ErrorObject nm msg st)
        define props where "props = [(''name'', nm), (''message'', msg), (''stack'', st)]"
        define s1 where "s1 = s\<lparr>js_seen := insert a (js_seen s), js_heap := js_heap s @ [PlainObject props]\<rparr>"
        define f where "f = length (js_heap s)"
        from vals ErrorObject have pv: "\<forall>v\<in>set (map snd props). val_ok R v" by (simp add: props_def)
        then have new: "obj_ok R (PlainObject props)" by (simp add: obj_ok_def props_def)
        have inv1: "ser_inv N R s1"
          unfolding ser_inv_def
        proof (intro conjI allI impI ballI)
          from Suc.prems(1) show "N \<le> length (js_heap s1)" by (simp add: ser_inv_def s1_def)
        next
          fix x assume "x \<in> R"
          with Suc.prems(1) show "x < N" by (simp add: ser_inv_def)
        next
          fix x o' assume h: "heap_get (js_heap s1) x = Some o' \<and> (x \<in> R \<or> N \<le> x)"
          then have "heap_get (js_heap s @ [PlainObject props]) x = Some o'" by (simp add: s1_def)
          from heap_get_append_cases [OF this] h Suc.prems(1) new show "obj_ok R o'"
            by (auto simp: ser_inv_def)
        next
          fix x assume "x \<in> set (js_stack s1)"
          with Suc.prems(1) show "x < length (js_heap s1)" by (auto simp: ser_inv_def s1_def)
        next
          fix x assume "x \<in> set (js_stack s1)" "x \<in> R"
          with Suc.prems(1) show "x \<in> js_seen s1" by (auto simp: ser_inv_def s1_def)
        qed
        from Suc.prems(1) have fs: "f \<notin> set (js_stack s1)" by (auto simp: ser_inv_def s1_def f_def)
        from Suc.prems(1) have fl: "f < length (js_heap s1)" "f \<in> R \<longrightarrow> f \<in> js_seen s1"
          by (auto simp: ser_inv_def s1_def f_def)
        from u0 have u1: "unseen R s1 < n" by (simp add: s1_def s0_def unseen_def)
        have ok1: "step_ok N R s s1" using inv1 by (auto simp: step_ok_def s1_def)
        from object_ok [OF P inv1 fs fl pv u1] obtain str s' where
          r: "SerializeJSONObject n s1 f props = Some (Inr (str, s'))" and ok: "step_ok N R s1 s'" by blast
        from obj ErrorObject have "heap_get (js_heap s) a = Some (ErrorObject nm msg st)" by simp
        from property_error [OF False this, of n key] r have "SerializeJSONProperty (Suc n) s key v = Some (Inr (Some str, s'))"
          by (simp add: v s1_def f_def props_def del: SerializeJSONProperty.simps SerializeJSONObject.simps)
        with step_ok_trans [OF ok1 ok] show ?thesis by blast
      qed
    qed
  qed
qed

lemma graph_in_store: "graph_closed h R \<Longrightarrow> a \<in> R \<Longrightarrow> a < length h"
  by (auto simp: graph_closed_def heap_get_def split: if_splits)

lemma initial_inv:
  assumes "graph_closed h R" and "bigint_free h R" and "toJSON_free h R"
  shows "ser_inv (length h) R \<lparr>js_heap = h, js_seen = {}, js_stack = [], js_indent = [], js_gap = g\<rparr>"
  unfolding ser_inv_def
proof (intro conjI allI impI ballI)
  fix a obj assume "heap_get (js_heap \<lparr>js_heap = h, js_seen = {}, js_stack = [], js_indent = [], js_gap = g\<rparr>) a = Some obj
      \<and> (a \<in> R \<or> length h \<le> a)"
  then have g: "heap_get h a = Some obj" and "a \<in> R \<or> length h \<le> a" by simp_all
  with heap_get_Some [OF g] have "a \<in> R" by auto
  with assms g show "obj_ok R obj"
    by (fastforce simp: graph_closed_def bigint_free_def toJSON_free_def obj_ok_def val_ok_def)
qed (use assms in \<open>auto dest: graph_in_store\<close>)

lemma initial_unseen:
  assumes "graph_closed h R"
  shows "unseen R \<lparr>js_heap = h, js_seen = {}, js_stack = [], js_indent = [], js_gap = g\<rparr> \<le> length h"
proof -
  from assms have "R \<subseteq> {..<length h}" by (auto dest: graph_in_store)
  from card_mono [OF _ this] show ?thesis by (simp add: unseen_def)
qed

lemma safeStringify_returns:
  assumes "graph_closed h R" and "bigint_free h R" and "toJSON_free h R"
    and "val_closed R obj" and "\<not> is_bigint obj" and "length h < fuel"
  shows "\<exists>out. safeStringify fuel h obj indent = Some (Inr out)"
proof -
  let ?s = "\<lparr>js_heap = h, js_seen = {}, js_stack = [], js_indent = [], js_gap = gap_of indent\<rparr>"
  have v: "val_ok R obj" using assms(4,5) by (simp add: val_ok_def)
  have u: "unseen R ?s < fuel" using assms(6) initial_unseen [OF assms(1), of "gap_of indent"] by simp
  from property_ok [OF initial_inv [OF assms(1-3)] v u] obtain r s' where
    "SerializeJSONProperty fuel ?s [] obj = Some (Inr (r, s'))" by blast
  then show ?thesis by (simp add: safeStringify_def)
qed

subsection \<open>The placeholder for a self-reference\<close>





subsection \<open>Errors and objects met again\<close>






section \<open>Properties of the logger\<close>

subsection \<open>Paths\<close>

lemma path_join_eq_iff [simp]: "path_join d a = path_join d b \<longleftrightarrow> a = b"
  by (simp add: path_join_def)

lemma path_join_nonempty [simp]: "path_join d a \<noteq> []"
  by (simp add: path_join_def)

lemma backup_path_eq_iff: "0 \<le> i \<Longrightarrow> 0 \<le> j \<Longrightarrow> backup_path d i = backup_path d j \<longleftrightarrow> i = j"
  by (auto simp: backup_path_def dest: show_int_inj)

lemma backup_path_not_live [simp]:
  "backup_path d i \<noteq> path_join d ''app.log''" "path_join d ''app.log'' \<noteq> backup_path d i"
  by (simp_all add: backup_path_def)

lemma backup_path_1: "path_join d ''app.log.1'' = backup_path d 1"
  by (simp add: backup_path_def show_int_1)

lemma unset_Some [simp]: "unset (Some p) \<longleftrightarrow> p = []"
  by (simp add: unset_def)

lemma unset_None [simp]: "unset None"
  by (simp add: unset_def)

subsection \<open>What each primitive changes\<close>

lemma console_emit_fields [simp]:
  "heap (console_emit w ch args) = heap w"
  "files (console_emit w ch args) = files w"
  "dirs (console_emit w ch args) = dirs w"
  "userData (console_emit w ch args) = userData w"
  "fs_fault (console_emit w ch args) = fs_fault w"
  "calls (console_emit w ch args) = calls w"
  "console (console_emit w ch args) = console w @ [(ch, args)]"
  by (simp_all add: console_emit_def)

lemma rotation_failed_fields [simp]:
  "heap (rotation_failed w e) = heap w"
  "files (rotation_failed w e) = files w"
  "dirs (rotation_failed w e) = dirs w"
  "userData (rotation_failed w e) = userData w"
  "fs_fault (rotation_failed w e) = fs_fault w"
  "calls (rotation_failed w e) = calls w"
  by (simp_all add: rotation_failed_def)

lemma app_getPath_fields [simp]:
  "fst (app_getPath w) = userData w"
  "heap (snd (app_getPath w)) = heap w"
  "files (snd (app_getPath w)) = files w"
  "dirs (snd (app_getPath w)) = dirs w"
  "userData (snd (app_getPath w)) = userData w"
  "fs_fault (snd (app_getPath w)) = fs_fault w"
  "calls (snd (app_getPath w)) = calls w @ [GetPath ''userData'']"
  "console (snd (app_getPath w)) = console w"
  by (simp_all add: app_getPath_def record_call_def)

lemma existsSync_fields [simp]:
  "fst (existsSync w p) \<longleftrightarrow> fs_fault w (ExistsSync p) = None \<and> (files w p \<noteq> None \<or> p \<in> dirs w)"
  "heap (snd (existsSync w p)) = heap w"
  "files (snd (existsSync w p)) = files w"
  "dirs (snd (existsSync w p)) = dirs w"
  "userData (snd (existsSync w p)) = userData w"
  "fs_fault (snd (existsSync w p)) = fs_fault w"
  "calls (snd (existsSync w p)) = calls w @ [ExistsSync p]"
  "console (snd (existsSync w p)) = console w"
  by (simp_all add: existsSync_def record_call_def)

lemma mkdirSync_fields [simp]:
  "heap (snd (mkdirSync w p)) = heap w"
  "files (snd (mkdirSync w p)) = files w"
  "userData (snd (mkdirSync w p)) = userData w"
  "fs_fault (snd (mkdirSync w p)) = fs_fault w"
  "calls (snd (mkdirSync w p)) = calls w @ [MkdirSync p]"
  "console (snd (mkdirSync w p)) = console w"
  by (simp_all add: mkdirSync_def record_call_def Let_def split: option.split)

lemma statSync_fields [simp]:
  "heap (snd (statSync w p)) = heap w"
  "files (snd (statSync w p)) = files w"
  "dirs (snd (statSync w p)) = dirs w"
  "userData (snd (statSync w p)) = userData w"
  "fs_fault (snd (statSync w p)) = fs_fault w"
  "calls (snd (statSync w p)) = calls w @ [StatSync p]"
  "console (snd (statSync w p)) = console w"
  by (simp_all add: statSync_def record_call_def Let_def split: option.split)

lemma statSync_result:
  "fst (statSync w p) =
     (case fs_fault w (StatSync p) of
        Some e \<Rightarrow> Inl e
      | None \<Rightarrow> (case files w p of None \<Rightarrow> Inl (errno ''ENOENT'') | Some content \<Rightarrow> Inr (int (length content))))"
  by (simp add: statSync_def Let_def split: option.split)

lemma unlinkSync_fields [simp]:
  "heap (snd (unlinkSync w p)) = heap w"
  "dirs (snd (unlinkSync w p)) = dirs w"
  "userData (snd (unlinkSync w p)) = userData w"
  "fs_fault (snd (unlinkSync w p)) = fs_fault w"
  "calls (snd (unlinkSync w p)) = calls w @ [UnlinkSync p]"
  "console (snd (unlinkSync w p)) = console w"
  by (simp_all add: unlinkSync_def record_call_def Let_def split: option.split)

lemma unlinkSync_result:
  "fst (unlinkSync w p) = None \<longleftrightarrow> fs_fault w (UnlinkSync p) = None \<and> files w p \<noteq> None"
  "files (snd (unlinkSync w p)) = (if fst (unlinkSync w p) = None then (files w)(p := None) else files w)"
  by (auto simp: unlinkSync_def record_call_def Let_def split: option.split)

lemma renameSync_fields [simp]:
  "heap (snd (renameSync w a b)) = heap w"
  "dirs (snd (renameSync w a b)) = dirs w"
  "userData (snd (renameSync w a b)) = userData w"
  "fs_fault (snd (renameSync w a b)) = fs_fault w"
  "calls (snd (renameSync w a b)) = calls w @ [RenameSync a b]"
  "console (snd (renameSync w a b)) = console w"
  by (simp_all add: renameSync_def record_call_def Let_def split: option.split)

lemma renameSync_result:
  "fst (renameSync w a b) = None \<longleftrightarrow> fs_fault w (RenameSync a b) = None \<and> files w a \<noteq> None \<and> b \<notin> dirs w"
  "files (snd (renameSync w a b)) =
     (if fst (renameSync w a b) = None then (files w)(a := None, b := files w a) else files w)"
  by (auto simp: renameSync_def record_call_def Let_def split: option.split)

lemma appendFileSync_fields [simp]:
  "heap (snd (appendFileSync w p c)) = heap w"
  "dirs (snd (appendFileSync w p c)) = dirs w"
  "userData (snd (appendFileSync w p c)) = userData w"
  "fs_fault (snd (appendFileSync w p c)) = fs_fault w"
  "calls (snd (appendFileSync w p c)) = calls w @ [AppendFileSync p c]"
  "console (snd (appendFileSync w p c)) = console w"
  by (simp_all add: appendFileSync_def record_call_def Let_def split: option.split)

lemma appendFileSync_files:
  "files (snd (appendFileSync w p c)) q = (if q = p \<and> fst (appendFileSync w p c) = None
      then Some ((case files w p of None \<Rightarrow> [] | Some old \<Rightarrow> old) @ c) else files w q)"
  by (simp add: appendFileSync_def record_call_def Let_def split: option.split)

lemma append_calls_snoc [simp]:
  "append_calls (w\<lparr>calls := calls w @ [c]\<rparr>) = append_calls w @ (if is_append c then [c] else [])"
  by (simp add: append_calls_def)

lemma append_calls_cong: "calls w' = calls w @ cs \<Longrightarrow> append_calls w' = append_calls w @ filter is_append cs"
  by (simp add: append_calls_def)

lemma rotation_checks_cong:
  "calls w' = calls w @ cs \<Longrightarrow> rotation_checks p w' = rotation_checks p w + length (filter (\<lambda>c. c = ExistsSync p) cs)"
  by (simp add: rotation_checks_def)

subsection \<open>The backup loop\<close>

lemma rotate_backups_step:
  "rotate_backups d M i w =
     (if i \<ge> 1 then
        (if fst (existsSync w (backup_path d i)) then
           (if fst (if i = M - 1 then unlinkSync (snd (existsSync w (backup_path d i))) (backup_path d i)
                     else renameSync (snd (existsSync w (backup_path d i))) (backup_path d i) (backup_path d (i + 1))) = None
            then rotate_backups d M (i - 1)
                   (snd (if i = M - 1 then unlinkSync (snd (existsSync w (backup_path d i))) (backup_path d i)
                         else renameSync (snd (existsSync w (backup_path d i))) (backup_path d i) (backup_path d (i + 1))))
            else (if i = M - 1 then unlinkSync (snd (existsSync w (backup_path d i))) (backup_path d i)
                  else renameSync (snd (existsSync w (backup_path d i))) (backup_path d i) (backup_path d (i + 1))))
         else rotate_backups d M (i - 1) (snd (existsSync w (backup_path d i))))
      else (None, w))"
  by (subst rotate_backups.simps) (simp add: Let_def)

text \<open>
  The loop touches the file system only through \<^verbatim>\<open>existsSync\<close>, \<^verbatim>\<open>unlinkSync\<close> and
  \<^verbatim>\<open>renameSync\<close> on backup paths: it appends nothing, never probes the live file and
  leaves the rest of the environment alone.
\<close>

lemma rotate_backups_frame:
  "rotate_backups d M i w = (r, w') \<Longrightarrow>
   heap w' = heap w \<and> dirs w' = dirs w \<and> userData w' = userData w \<and> fs_fault w' = fs_fault w
   \<and> console w' = console w \<and> append_calls w' = append_calls w
   \<and> rotation_checks (path_join d ''app.log'') w' = rotation_checks (path_join d ''app.log'') w"
proof (induction "nat i" arbitrary: i w r w')
  case 0
  then show ?case by (subst (asm) rotate_backups_step) simp
next
  case (Suc n)
  then have n: "n = nat (i - 1)" and i: "i \<ge> 1" by simp_all
  note IH = Suc.hyps(1) [OF n]
  define e where "e = existsSync w (backup_path d i)"
  define u where "u = (if i = M - 1 then unlinkSync (snd e) (backup_path d i)
                       else renameSync (snd e) (backup_path d i) (backup_path d (i + 1)))"
  have eq: "rotate_backups d M i w =
      (if fst e then (if fst u = None then rotate_backups d M (i - 1) (snd u) else u)
       else rotate_backups d M (i - 1) (snd e))"
    unfolding u_def e_def using i by (subst rotate_backups_step) (simp only: if_True)
  have e: "heap (snd e) = heap w \<and> dirs (snd e) = dirs w \<and> userData (snd e) = userData w
      \<and> fs_fault (snd e) = fs_fault w \<and> console (snd e) = console w \<and> append_calls (snd e) = append_calls w
      \<and> rotation_checks (path_join d ''app.log'') (snd e) = rotation_checks (path_join d ''app.log'') w"
    unfolding e_def by (simp add: append_calls_def rotation_checks_def)
  have u: "heap (snd u) = heap w \<and> dirs (snd u) = dirs w \<and> userData (snd u) = userData w
      \<and> fs_fault (snd u) = fs_fault w \<and> console (snd u) = console w \<and> append_calls (snd u) = append_calls w
      \<and> rotation_checks (path_join d ''app.log'') (snd u) = rotation_checks (path_join d ''app.log'') w"
    unfolding u_def e_def by (simp add: append_calls_def rotation_checks_def)
  show ?case
  proof (cases "fst e")
    case False
    with eq Suc.prems have "rotate_backups d M (i - 1) (snd e) = (r, w')" by simp
    from IH [OF this] e show ?thesis by simp
  next
    case True
    show ?thesis
    proof (cases "fst u = None")
      case go: True
      with eq \<open>fst e\<close> Suc.prems have "rotate_backups d M (i - 1) (snd u) = (r, w')" by simp
      from IH [OF this] u show ?thesis by simp
    next
      case stop: False
      with eq \<open>fst e\<close> Suc.prems have "u = (r, w')" by simp
      then have "w' = snd u" by simp
      with u show ?thesis by simp
    qed
  qed
qed

lemmas rotate_backups_snd [simp] = rotate_backups_frame [OF surjective_pairing]

lemma append_calls_primitives [simp]:
  "append_calls (console_emit w ch args) = append_calls w"
  "append_calls (rotation_failed w e) = append_calls w"
  "append_calls (snd (app_getPath w)) = append_calls w"
  "append_calls (snd (existsSync w p)) = append_calls w"
  "append_calls (snd (mkdirSync w p)) = append_calls w"
  "append_calls (snd (statSync w p)) = append_calls w"
  "append_calls (snd (unlinkSync w p)) = append_calls w"
  "append_calls (snd (renameSync w p q)) = append_calls w"
  "append_calls (snd (appendFileSync w p c)) = append_calls w @ [AppendFileSync p c]"
  by (simp_all add: append_calls_def)

lemma rotation_checks_primitives [simp]:
  "rotation_checks x (console_emit w ch args) = rotation_checks x w"
  "rotation_checks x (rotation_failed w e) = rotation_checks x w"
  "rotation_checks x (snd (app_getPath w)) = rotation_checks x w"
  "rotation_checks x (snd (existsSync w p)) = rotation_checks x w + (if p = x then 1 else 0)"
  "rotation_checks x (snd (mkdirSync w p)) = rotation_checks x w"
  "rotation_checks x (snd (statSync w p)) = rotation_checks x w"
  "rotation_checks x (snd (unlinkSync w p)) = rotation_checks x w"
  "rotation_checks x (snd (renameSync w p q)) = rotation_checks x w"
  "rotation_checks x (snd (appendFileSync w p c)) = rotation_checks x w"
  by (simp_all add: rotation_checks_def)

subsection \<open>rotateIfNeeded\<close>

lemma rotateIfNeeded_unfold:
  assumes "logFilePath L = Some p" and "logsDir L = Some d" and "p \<noteq> []" and "d \<noteq> []"
  shows "rotateIfNeeded L w =
     (let e = existsSync w p in
      if \<not> fst e then snd e
      else
        (let s = statSync (snd e) p in
         case fst s of
           Inl err \<Rightarrow> rotation_failed (snd s) err
         | Inr sz \<Rightarrow>
             (if sz < maxFileSize (options L) then snd s
              else
                (let rb = rotate_backups d (maxBackups (options L)) (maxBackups (options L) - 1) (snd s) in
                 case fst rb of
                   Some err \<Rightarrow> rotation_failed (snd rb) err
                 | None \<Rightarrow>
                     (let rn = renameSync (snd rb) p (path_join d ''app.log.1'') in
                      case fst rn of Some err \<Rightarrow> rotation_failed (snd rn) err | None \<Rightarrow> snd rn)))))"
  using assms
  by (simp add: rotateIfNeeded_def Let_def split: prod.split sum.split option.split del: existsSync_fields(1))

lemma rotateIfNeeded_unset: "unset (logFilePath L) \<or> unset (logsDir L) \<Longrightarrow> rotateIfNeeded L w = w"
  by (simp add: rotateIfNeeded_def)

text \<open>
  A rotation check changes files and the console only: it appends nothing and leaves the
  store, the directories and the behaviour of the platform as they are.
\<close>

lemma rotateIfNeeded_frame:
  "heap (rotateIfNeeded L w) = heap w \<and> dirs (rotateIfNeeded L w) = dirs w
   \<and> userData (rotateIfNeeded L w) = userData w \<and> fs_fault (rotateIfNeeded L w) = fs_fault w
   \<and> append_calls (rotateIfNeeded L w) = append_calls w"
proof (cases "unset (logFilePath L) \<or> unset (logsDir L)")
  case True
  then show ?thesis by (simp add: rotateIfNeeded_unset)
next
  case False
  then obtain p d where "logFilePath L = Some p" "logsDir L = Some d" "p \<noteq> []" "d \<noteq> []"
    by (auto simp: unset_def split: option.splits)
  then show ?thesis
    by (simp add: rotateIfNeeded_unfold Let_def split: sum.split option.split del: existsSync_fields(1))
qed

lemmas rotateIfNeeded_fields [simp] =
  rotateIfNeeded_frame [THEN conjunct1]
  rotateIfNeeded_frame [THEN conjunct2, THEN conjunct1]
  rotateIfNeeded_frame [THEN conjunct2, THEN conjunct2, THEN conjunct1]
  rotateIfNeeded_frame [THEN conjunct2, THEN conjunct2, THEN conjunct2, THEN conjunct1]
  rotateIfNeeded_frame [THEN conjunct2, THEN conjunct2, THEN conjunct2, THEN conjunct2]

text \<open>Every run of \<^verbatim>\<open>rotateIfNeeded\<close> on an initialized logger is one check.\<close>

lemma rotateIfNeeded_checks:
  assumes "file_logging_ready L d"
  shows "rotation_checks (path_join d ''app.log'') (rotateIfNeeded L w)
       = Suc (rotation_checks (path_join d ''app.log'') w)"
proof -
  from assms have "logFilePath L = Some (path_join d ''app.log'')" "logsDir L = Some d" "d \<noteq> []"
    by (simp_all add: file_logging_ready_def)
  then show ?thesis
    by (simp add: rotateIfNeeded_unfold Let_def split: sum.split option.split del: existsSync_fields(1))
qed

subsection \<open>writeToFile\<close>

lemma writeToFile_unset:
  "unset (logFilePath L) \<or> unset (logsDir L) \<Longrightarrow> writeToFile L w c = (L, w)"
  by (simp add: writeToFile_def)

lemma writeToFile_set:
  assumes "logFilePath L = Some p" and "p \<noteq> []" and "\<not> unset (logsDir L)"
  shows "writeToFile L w c =
     (let checked = (logWriteCount L + 1 \<ge> rotationCheckInterval (options L));
          w1 = (if checked then rotateIfNeeded (L\<lparr>logWriteCount := logWriteCount L + 1\<rparr>) w else w);
          L2 = L\<lparr>logWriteCount := (if checked then 0 else logWriteCount L + 1)\<rparr>;
          a = appendFileSync w1 p c
      in (L2, case fst a of
                None \<Rightarrow> snd a
              | Some e \<Rightarrow> console_emit (snd a) ConsoleError [CStr ''[Logger] Failed to write to log file:'', CErr e]))"
  using assms
  by (simp add: writeToFile_def Let_def split: prod.split option.split)

lemma ready_count_irrelevant [simp]:
  "file_logging_ready (L\<lparr>logWriteCount := n\<rparr>) d = file_logging_ready L d"
  "file_logging_ready (L\<lparr>logBuffer := b\<rparr>) d = file_logging_ready L d"
  by (simp_all add: file_logging_ready_def)

lemma writeToFile_logger:
  assumes "file_logging_ready L d"
  shows "fst (writeToFile L w c)
       = L\<lparr>logWriteCount := (if logWriteCount L + 1 \<ge> rotationCheckInterval (options L) then 0
                               else logWriteCount L + 1)\<rparr>"
  using assms by (simp add: writeToFile_set [where p = "path_join d ''app.log''"] file_logging_ready_def Let_def)

lemma writeToFile_checks:
  assumes "file_logging_ready L d"
  shows "rotation_checks (path_join d ''app.log'') (snd (writeToFile L w c))
       = rotation_checks (path_join d ''app.log'') w
         + (if logWriteCount L + 1 \<ge> rotationCheckInterval (options L) then 1 else 0)"
  using assms
  by (simp add: writeToFile_set [where p = "path_join d ''app.log''"] file_logging_ready_def [of L] Let_def
      rotateIfNeeded_checks split: option.split)

lemma writeToFile_appends:
  assumes "file_logging_ready L d"
  shows "append_calls (snd (writeToFile L w c)) = append_calls w @ [AppendFileSync (path_join d ''app.log'') c]"
  using assms
  by (simp add: writeToFile_set [where p = "path_join d ''app.log''"] file_logging_ready_def Let_def split: option.split)

lemma writeToFile_heap [simp]: "heap (snd (writeToFile L w c)) = heap w"
proof (cases "unset (logFilePath L) \<or> unset (logsDir L)")
  case True
  then show ?thesis by (simp add: writeToFile_unset)
next
  case False
  then obtain p where "logFilePath L = Some p" "p \<noteq> []" "\<not> unset (logsDir L)"
    by (auto simp: unset_def split: option.splits)
  then show ?thesis
    by (simp add: writeToFile_set Let_def split: option.split)
qed

subsection \<open>Sampling of the rotation check\<close>

lemma writes_snoc_ready:
  assumes "file_logging_ready L d"
  shows "file_logging_ready (fst (writeToFile L w c)) d \<and> options (fst (writeToFile L w c)) = options L"
  using assms by (simp add: writeToFile_logger)

lemma writes_sampling:
  assumes "file_logging_ready L d" and "rotationCheckInterval (options L) = R" and "R \<ge> 1"
    and "0 \<le> logWriteCount L" and "logWriteCount L < R"
  shows "rotation_checks (path_join d ''app.log'') (snd (writes L w cs))
           = rotation_checks (path_join d ''app.log'') w + nat ((logWriteCount L + int (length cs)) div R)
       \<and> logWriteCount (fst (writes L w cs)) = (logWriteCount L + int (length cs)) mod R"
  using assms
proof (induction cs arbitrary: L w)
  case Nil
  then show ?case by simp
next
  case (Cons c cs)
  let ?L1 = "fst (writeToFile L w c)" and ?w1 = "snd (writeToFile L w c)"
  have split: "writes L w (c # cs) = writes ?L1 ?w1 cs"
    by (simp add: case_prod_unfold)
  have L1: "?L1 = L\<lparr>logWriteCount := (if logWriteCount L + 1 \<ge> R then 0 else logWriteCount L + 1)\<rparr>"
    using Cons.prems(1,2) by (simp add: writeToFile_logger)
  have w1: "rotation_checks (path_join d ''app.log'') ?w1
      = rotation_checks (path_join d ''app.log'') w + (if logWriteCount L + 1 \<ge> R then 1 else 0)"
    using Cons.prems(1,2) by (simp add: writeToFile_checks)
  have r1: "file_logging_ready ?L1 d" "rotationCheckInterval (options ?L1) = R"
    using Cons.prems(1,2) by (simp_all add: L1)
  show ?case
  proof (cases "logWriteCount L + 1 \<ge> R")
    case True
    with Cons.prems have c: "logWriteCount L + 1 = R" by simp
    from True L1 have z: "logWriteCount ?L1 = 0" by simp
    from Cons.IH [OF r1 Cons.prems(3), of ?w1] z Cons.prems(3)
    have IH: "rotation_checks (path_join d ''app.log'') (snd (writes ?L1 ?w1 cs))
          = rotation_checks (path_join d ''app.log'') ?w1 + nat (int (length cs) div R)"
      "logWriteCount (fst (writes ?L1 ?w1 cs)) = int (length cs) mod R"
      by simp_all
    have eq: "logWriteCount L + int (length (c # cs)) = int (length cs) + 1 * R"
      using c by simp
    have d: "(logWriteCount L + int (length (c # cs))) div R = int (length cs) div R + 1"
      unfolding eq using Cons.prems(3) by (subst div_mult_self1) simp_all
    have m: "(logWriteCount L + int (length (c # cs))) mod R = int (length cs) mod R"
      unfolding eq by (subst mod_mult_self1) simp
    have nn: "0 \<le> int (length cs) div R"
      using Cons.prems(3) by (simp add: pos_imp_zdiv_nonneg_iff)
    from IH w1 True d m nn show ?thesis
      unfolding split by (simp add: nat_add_distrib)
  next
    case False
    with L1 have z: "logWriteCount ?L1 = logWriteCount L + 1" by simp
    from False Cons.prems z have b: "0 \<le> logWriteCount ?L1" "logWriteCount ?L1 < R" by simp_all
    from Cons.IH [OF r1 Cons.prems(3) b, of ?w1] z
    have IH: "rotation_checks (path_join d ''app.log'') (snd (writes ?L1 ?w1 cs))
          = rotation_checks (path_join d ''app.log'') ?w1 + nat ((logWriteCount L + 1 + int (length cs)) div R)"
      "logWriteCount (fst (writes ?L1 ?w1 cs)) = (logWriteCount L + 1 + int (length cs)) mod R"
      by simp_all
    have eq: "logWriteCount L + int (length (c # cs)) = logWriteCount L + 1 + int (length cs)"
      by simp
    from IH w1 False show ?thesis
      unfolding split eq by simp
  qed
qed

text \<open>
  C4. On a logger with file logging initialized, \<^verbatim>\<open>rotationCheckInterval = R \<ge> 1\<close> and
  a write counter of zero: fewer than \<open>R\<close> disk writes run no rotation check, \<open>R\<close>
  writes run exactly one, \<open>k * R\<close> writes exactly \<open>k\<close>. A write that brings the counter to
  \<open>R\<close> runs one check and leaves the counter at 0 in every environment, so also when the
  check throws or rotates nothing; any other write adds one to the counter and checks
  nothing.
\<close>

theorem rotation_check_sampling:
  assumes "file_logging_ready L d" and "rotationCheckInterval (options L) = R" and "R \<ge> 1"
    and "logWriteCount L = 0" and "writes L w cs = (L', w')"
  shows "(int (length cs) < R \<longrightarrow>
            rotation_checks (path_join d ''app.log'') w' = rotation_checks (path_join d ''app.log'') w)
       \<and> (int (length cs) = R \<longrightarrow>
            rotation_checks (path_join d ''app.log'') w' = rotation_checks (path_join d ''app.log'') w + 1)
       \<and> (\<forall>k\<ge>1. int (length cs) = k * R \<longrightarrow>
            rotation_checks (path_join d ''app.log'') w' = rotation_checks (path_join d ''app.log'') w + nat k)
       \<and> (\<forall>L1 w1 c. file_logging_ready L1 d \<and> rotationCheckInterval (options L1) = R \<longrightarrow>
            (if logWriteCount L1 + 1 \<ge> R
             then logWriteCount (fst (writeToFile L1 w1 c)) = 0
                  \<and> rotation_checks (path_join d ''app.log'') (snd (writeToFile L1 w1 c))
                      = rotation_checks (path_join d ''app.log'') w1 + 1
             else logWriteCount (fst (writeToFile L1 w1 c)) = logWriteCount L1 + 1
                  \<and> rotation_checks (path_join d ''app.log'') (snd (writeToFile L1 w1 c))
                      = rotation_checks (path_join d ''app.log'') w1))"
proof -
  let ?live = "path_join d ''app.log''"
  from assms(3,4) have b: "0 \<le> logWriteCount L" "logWriteCount L < R" by simp_all
  from writes_sampling [OF assms(1-3) b, of w cs] assms(4,5)
  have n: "rotation_checks ?live w' = rotation_checks ?live w + nat (int (length cs) div R)"
    by simp
  have 1: "int (length cs) < R \<longrightarrow> rotation_checks ?live w' = rotation_checks ?live w"
    using n by (simp add: div_pos_pos_trivial)
  have 2: "int (length cs) = R \<longrightarrow> rotation_checks ?live w' = rotation_checks ?live w + 1"
    using n assms(3) by auto
  have 3: "\<forall>k\<ge>1. int (length cs) = k * R \<longrightarrow> rotation_checks ?live w' = rotation_checks ?live w + nat k"
    using n assms(3) by auto
  have 4: "\<forall>L1 w1 c. file_logging_ready L1 d \<and> rotationCheckInterval (options L1) = R \<longrightarrow>
            (if logWriteCount L1 + 1 \<ge> R
             then logWriteCount (fst (writeToFile L1 w1 c)) = 0
                  \<and> rotation_checks ?live (snd (writeToFile L1 w1 c)) = rotation_checks ?live w1 + 1
             else logWriteCount (fst (writeToFile L1 w1 c)) = logWriteCount L1 + 1
                  \<and> rotation_checks ?live (snd (writeToFile L1 w1 c)) = rotation_checks ?live w1)"
    by (simp add: writeToFile_logger [where d = d] writeToFile_checks)
  from 1 2 3 4 show ?thesis by blast
qed

theorem rotation_check_sampling_witness:
  "file_logging_ready logger_every_2 ''/u/logs''
   \<and> rotationCheckInterval (options logger_every_2) = 2
   \<and> logWriteCount logger_every_2 = 0
   \<and> fs_fault world_stat_denied (StatSync ''/u/logs/app.log'') = Some eacces
   \<and> rotation_checks ''/u/logs/app.log'' (snd (writes logger_every_2 world_stat_denied [''a''])) = 0
   \<and> rotation_checks ''/u/logs/app.log'' (snd (writes logger_every_2 world_stat_denied [''a'', ''b''])) = 1
   \<and> rotation_checks ''/u/logs/app.log'' (snd (writes logger_every_2 world_stat_denied [''a'', ''b'', ''c'', ''d''])) = 2
   \<and> logWriteCount (fst (writeToFile (logger_every_2\<lparr>logWriteCount := 1\<rparr>) world_stat_denied ''x'')) = 0"
proof -
  let ?L = logger_every_2 and ?w = world_stat_denied
  have p: "path_join ''/u/logs'' ''app.log'' = ''/u/logs/app.log''"
    by (simp add: path_join_def)
  have r: "file_logging_ready ?L ''/u/logs''"
    by (simp add: file_logging_ready_def logger_every_2_def ready_logger_def p)
  have R: "rotationCheckInterval (options ?L) = 2" and c0: "logWriteCount ?L = 0"
    by (simp_all add: logger_every_2_def ready_logger_def)
  have g: "(2::int) \<ge> 1" by simp
  have f: "fs_fault ?w (StatSync ''/u/logs/app.log'') = Some eacces"
    by (simp add: world_stat_denied_def)
  have z: "rotation_checks ''/u/logs/app.log'' ?w = 0"
    by (simp add: rotation_checks_def world_stat_denied_def world0_def)
  note T = rotation_check_sampling [OF r R g c0 surjective_pairing, where w = ?w, unfolded p z]
  have 1: "rotation_checks ''/u/logs/app.log'' (snd (writes ?L ?w [''a''])) = 0"
    using T [where cs = "[''a'']"] by simp
  have 2: "rotation_checks ''/u/logs/app.log'' (snd (writes ?L ?w [''a'', ''b''])) = 1"
    using T [where cs = "[''a'', ''b'']"] by simp
  have "int (length [''a'', ''b'', ''c'', ''d'']) = 2 * 2" by simp
  with T [where cs = "[''a'', ''b'', ''c'', ''d'']"]
  have 3: "rotation_checks ''/u/logs/app.log'' (snd (writes ?L ?w [''a'', ''b'', ''c'', ''d''])) = 2"
    by (metis add_0 g nat_numeral one_le_numeral)
  have r1: "file_logging_ready (?L\<lparr>logWriteCount := 1\<rparr>) ''/u/logs''
      \<and> rotationCheckInterval (options (?L\<lparr>logWriteCount := 1\<rparr>)) = 2"
    using r R by simp
  have c1: "logWriteCount (?L\<lparr>logWriteCount := 1\<rparr>) + 1 \<ge> 2" by simp
  from T [where cs = "[]"] r1 c1
  have 4: "logWriteCount (fst (writeToFile (?L\<lparr>logWriteCount := 1\<rparr>) ?w ''x'')) = 0"
    by (metis (no_types, lifting))
  from r R c0 f 1 2 3 4 show ?thesis by blast
qed

subsection \<open>Level filter\<close>

lemma consoleLog_fields [simp]:
  "heap (consoleLog w lvl prefix message ctx) = heap w"
  "files (consoleLog w lvl prefix message ctx) = files w"
  "dirs (consoleLog w lvl prefix message ctx) = dirs w"
  "userData (consoleLog w lvl prefix message ctx) = userData w"
  "fs_fault (consoleLog w lvl prefix message ctx) = fs_fault w"
  "calls (consoleLog w lvl prefix message ctx) = calls w"
  "append_calls (consoleLog w lvl prefix message ctx) = append_calls w"
  "console (consoleLog w lvl prefix message ctx)
     = console w @ [(console_channel_of lvl, CStr (prefix @ '' '' @ message) # (if truthy ctx then [CVal ctx] else []))]"
  by (simp_all add: consoleLog_def Let_def append_calls_def)

lemma initFileLogging_level [simp]: "level (options (fst (initFileLogging L w))) = level (options L)"
  by (simp add: initFileLogging_def init_failed_def Let_def split: prod.split sum.split option.split)

lemma new_Logger_level:
  "level (options (fst (new_Logger w nm opts))) = (case opt_level opts of None \<Rightarrow> INFO | Some l \<Rightarrow> l)"
  by (simp add: new_Logger_def Let_def merge_options_def DEFAULT_OPTIONS_def split: option.split)

text \<open>
  C5. For severities \<open>S1 < S2\<close>, a logger constructed with level \<open>S2\<close> has level \<open>S2\<close>,
  and on every logger with level \<open>S2\<close> the method of severity \<open>S1\<close> returns with the
  logger (its write counter and buffer included) and the environment (console, files and
  recorded calls included) exactly as they were.
\<close>

theorem below_threshold_no_effect:
  assumes "level_num S1 < level_num S2"
  shows "level (options (fst (new_Logger w0 nm (opts\<lparr>opt_level := Some S2\<rparr>)))) = S2
       \<and> (\<forall>L. level (options L) = S2 \<longrightarrow> level_method S1 L w ts message ctx = Some (None, L, w))"
proof -
  have "level_method S1 L w ts message ctx = Some (None, L, w)" if "level (options L) = S2" for L
    using assms that by (cases S1; cases S2) (simp_all add: debug_def info_def warn_def log_def)
  then show ?thesis by (simp add: new_Logger_level)
qed

theorem below_threshold_no_effect_witness:
  "level_num DEBUG < level_num WARN
   \<and> level (options (fst (new_Logger world0 ''auth'' \<lparr>opt_level = Some WARN, opt_fileLogging = Some True,
        opt_maxFileSize = None, opt_maxBackups = None, opt_deferInit = None,
        opt_rotationCheckInterval = None, opt_bufferSize = None\<rparr>))) = WARN
   \<and> level (options (ready_logger (DEFAULT_OPTIONS\<lparr>level := WARN, fileLogging := True\<rparr>))) = WARN
   \<and> debug (ready_logger (DEFAULT_OPTIONS\<lparr>level := WARN, fileLogging := True\<rparr>)) world0 ''t'' ''x'' JUndefined
       = Some (None, ready_logger (DEFAULT_OPTIONS\<lparr>level := WARN, fileLogging := True\<rparr>), world0)"
proof -
  have a: "level_num DEBUG < level_num WARN" by simp
  have l: "level (options (ready_logger (DEFAULT_OPTIONS\<lparr>level := WARN, fileLogging := True\<rparr>))) = WARN"
    by (simp add: ready_logger_def)
  from below_threshold_no_effect [OF a, of world0 "''auth''"
      "\<lparr>opt_level = Some WARN, opt_fileLogging = Some True, opt_maxFileSize = None, opt_maxBackups = None,
        opt_deferInit = None, opt_rotationCheckInterval = None, opt_bufferSize = None\<rparr>"
      world0 "''t''" "''x''" JUndefined] a l
  show ?thesis by simp
qed

subsection \<open>Deferred initialization that fails\<close>

lemma initFileLogging_getPath_throws:
  assumes "\<not> fileLoggingInitialized L" and "userData w = Inl e"
  shows "initFileLogging L w = init_failed L (snd (app_getPath w)) e"
  using assms by (simp add: initFileLogging_def app_getPath_def)

lemma log_file_logging_off:
  assumes "\<not> fileLogging (options L)"
  shows "log L w ts lvl message ctx
       = Some (None, L, if level_num lvl < level_num (level (options L)) then w
                        else consoleLog w lvl (log_prefix ts lvl (moduleName L)) message ctx)"
  using assms by (simp add: log_def Let_def)

text \<open>
  C6. A logger constructed with \<^verbatim>\<open>{fileLogging: true, deferInit: true}\<close> (and the default
  level) is built without touching the platform. When \<^verbatim>\<open>app.getPath\<close> throws \<open>e\<close> at
  the first \<^verbatim>\<open>info\<close> call, the call returns normally: the console receives the message
  on the log channel and then \<^verbatim>\<open>'[Logger] Failed to initialize file logging:'\<close> with
  \<open>e\<close> on the error channel, the only recorded call is the path query, no file changes,
  and \<^verbatim>\<open>fileLogging\<close> is off. From then on no call of the logger, in any environment,
  makes a system call or changes the logger.
\<close>

theorem deferred_init_failure_absorbed:
  assumes "opt_fileLogging opts = Some True" and "opt_deferInit opts = Some True" and "opt_level opts = None"
    and "userData w = Inl e"
    and "new_Logger w0 nm opts = (L0, w0')"
  shows "w0' = w0
       \<and> (\<exists>L1 w1. info L0 w ts message ctx = Some (None, L1, w1)
            \<and> console w1 = console w
                 @ [(ConsoleLog, CStr (log_prefix ts INFO nm @ '' '' @ message) # (if truthy ctx then [CVal ctx] else [])),
                    (ConsoleError, [CStr ''[Logger] Failed to initialize file logging:'', CErr e])]
            \<and> calls w1 = calls w @ [GetPath ''userData'']
            \<and> append_calls w1 = append_calls w
            \<and> files w1 = files w
            \<and> \<not> isFileLoggingEnabled L1
            \<and> (\<forall>w2 ts2 lvl m2 c2. \<exists>w3. log L1 w2 ts2 lvl m2 c2 = Some (None, L1, w3)
                   \<and> calls w3 = calls w2 \<and> files w3 = files w2))"
proof -
  define L where "L = \<lparr>moduleName = nm, options = merge_options DEFAULT_OPTIONS opts, logFilePath = None,
      logsDir = None, fileLoggingInitialized = False, logWriteCount = 0, logBuffer = []\<rparr>"
  have o: "fileLogging (options L)" "deferInit (options L)" "level (options L) = INFO"
    using assms(1-3) by (simp_all add: L_def merge_options_def DEFAULT_OPTIONS_def)
  from assms(5) o have new: "L0 = L" "w0' = w0"
    by (simp_all add: new_Logger_def L_def [symmetric] Let_def)
  define L1 where "L1 = L\<lparr>options := (options L)\<lparr>fileLogging := False\<rparr>\<rparr>"
  define wc where "wc = consoleLog w INFO (log_prefix ts INFO nm) message ctx"
  define w1 where "w1 = console_emit (snd (app_getPath wc)) ConsoleError
      [CStr ''[Logger] Failed to initialize file logging:'', CErr e]"
  have ni: "\<not> fileLoggingInitialized L" "moduleName L = nm" "logFilePath L = None"
    by (simp_all add: L_def)
  have "userData wc = Inl e" using assms(4) by (simp add: wc_def)
  with ni have init: "ensureFileLoggingInitialized L wc = (L1, w1)"
    using o by (simp add: ensureFileLoggingInitialized_def initFileLogging_getPath_throws init_failed_def L1_def w1_def)
  have p1: "logFilePath L1 = None" using ni by (simp add: L1_def)
  have run: "info L w ts message ctx = Some (None, L1, w1)"
    using o ni init p1 by (simp add: info_def log_def Let_def wc_def [symmetric])
  have off: "\<not> fileLogging (options L1)" by (simp add: L1_def)
  have obs: "console w1 = console w
        @ [(ConsoleLog, CStr (log_prefix ts INFO nm @ '' '' @ message) # (if truthy ctx then [CVal ctx] else [])),
           (ConsoleError, [CStr ''[Logger] Failed to initialize file logging:'', CErr e])]"
    "calls w1 = calls w @ [GetPath ''userData'']" "append_calls w1 = append_calls w" "files w1 = files w"
    by (simp_all add: w1_def wc_def)
  have later: "\<exists>w3. log L1 w2 ts2 lvl m2 c2 = Some (None, L1, w3) \<and> calls w3 = calls w2 \<and> files w3 = files w2"
    for w2 ts2 lvl m2 c2
    by (simp add: log_file_logging_off [OF off])
  from new run off obs later show ?thesis
    by (auto simp: isFileLoggingEnabled_def)
qed

theorem deferred_init_failure_absorbed_witness:
  "opt_fileLogging opts_deferred = Some True \<and> opt_deferInit opts_deferred = Some True
   \<and> opt_level opts_deferred = None
   \<and> userData world_not_ready = Inl app_not_ready
   \<and> snd (new_Logger world_not_ready ''net'' opts_deferred) = world_not_ready
   \<and> (\<exists>L1 w1. info (fst (new_Logger world_not_ready ''net'' opts_deferred)) world_not_ready
                    ''2024-01-01T00:00:00.000Z'' ''ping'' JUndefined = Some (None, L1, w1)
          \<and> console w1 = [(ConsoleLog, [CStr ''[2024-01-01T00:00:00.000Z] [INFO] [net] ping'']),
                           (ConsoleError, [CStr ''[Logger] Failed to initialize file logging:'', CErr app_not_ready])]
          \<and> calls w1 = [GetPath ''userData'']
          \<and> append_calls w1 = []
          \<and> \<not> isFileLoggingEnabled L1)"
proof -
  have h: "opt_fileLogging opts_deferred = Some True" "opt_deferInit opts_deferred = Some True"
    "opt_level opts_deferred = None" "userData world_not_ready = Inl app_not_ready"
    by (simp_all add: opts_deferred_def world_not_ready_def)
  have e: "console world_not_ready = []" "calls world_not_ready = []" "append_calls world_not_ready = []"
    by (simp_all add: world_not_ready_def world0_def append_calls_def)
  have t: "log_prefix ''2024-01-01T00:00:00.000Z'' INFO ''net'' @ '' '' @ ''ping''
      = ''[2024-01-01T00:00:00.000Z] [INFO] [net] ping''"
    by (simp add: log_prefix_def)
  from deferred_init_failure_absorbed [OF h surjective_pairing, where ts = "''2024-01-01T00:00:00.000Z''"
      and message = "''ping''" and ctx = JUndefined and ?w0.0 = world_not_ready and nm = "''net''", unfolded e t]
  have "snd (new_Logger world_not_ready ''net'' opts_deferred) = world_not_ready
     \<and> (\<exists>L1 w1. info (fst (new_Logger world_not_ready ''net'' opts_deferred)) world_not_ready
                    ''2024-01-01T00:00:00.000Z'' ''ping'' JUndefined = Some (None, L1, w1)
          \<and> console w1 = [(ConsoleLog, [CStr ''[2024-01-01T00:00:00.000Z] [INFO] [net] ping'']),
                           (ConsoleError, [CStr ''[Logger] Failed to initialize file logging:'', CErr app_not_ready])]
          \<and> calls w1 = [GetPath ''userData'']
          \<and> append_calls w1 = []
          \<and> \<not> isFileLoggingEnabled L1)"
    by (simp only: truthy.simps if_False append_Nil) blast
  with h show ?thesis by blast
qed

subsection \<open>Buffered and immediate writes\<close>

lemma flushBuffer_empty: "logBuffer L = [] \<Longrightarrow> flushBuffer L w = (L, w)"
  by (simp add: flushBuffer_def)

lemma flushBuffer_nonempty:
  "logBuffer L \<noteq> [] \<Longrightarrow> flushBuffer L w = writeToFile (L\<lparr>logBuffer := []\<rparr>) w (concat (logBuffer L))"
  by (simp add: flushBuffer_def Let_def)

lemma ensure_initialized: "fileLoggingInitialized L \<Longrightarrow> ensureFileLoggingInitialized L w = (L, w)"
  by (simp add: ensureFileLoggingInitialized_def)

text \<open>One call on an initialized logger whose entry formats to \<open>line\<close>.\<close>

lemma log_ready_step:
  assumes "file_logging_ready L d" and "fileLogging (options L)" and "fileLoggingInitialized L"
    and "passes L (ts, lvl, message, ctx)"
    and "entry_of (heap w) (moduleName L) (ts, lvl, message, ctx) = Some (Inr line)"
  shows "log L w ts lvl message ctx =
     Some (None,
       if bufferSize (options L) > 0 then
         (if int (length (logBuffer L)) + 1 \<ge> bufferSize (options L)
          then writeToFile (L\<lparr>logBuffer := []\<rparr>) (consoleLog w lvl (log_prefix ts lvl (moduleName L)) message ctx)
                 (concat (logBuffer L @ [line]))
          else (L\<lparr>logBuffer := logBuffer L @ [line]\<rparr>,
                consoleLog w lvl (log_prefix ts lvl (moduleName L)) message ctx))
       else writeToFile L (consoleLog w lvl (log_prefix ts lvl (moduleName L)) message ctx) line)"
proof -
  define wc where "wc = consoleLog w lvl (log_prefix ts lvl (moduleName L)) message ctx"
  from assms(1) have p: "logFilePath L = Some (path_join d ''app.log'')" "logsDir L = Some d" "d \<noteq> []"
    by (simp_all add: file_logging_ready_def)
  from assms(4) have nf: "\<not> level_num lvl < level_num (level (options L))"
    by (simp add: passes_def)
  from assms(5) have e: "logEntry (heap wc) (log_prefix ts lvl (moduleName L)) message ctx = Some (Inr line)"
    by (simp add: entry_of_def wc_def)
  have fl: "fileLog L wc (log_prefix ts lvl (moduleName L)) message ctx =
      Some (None,
       if bufferSize (options L) > 0 then
         (if int (length (logBuffer L)) + 1 \<ge> bufferSize (options L)
          then writeToFile (L\<lparr>logBuffer := []\<rparr>) wc (concat (logBuffer L @ [line]))
          else (L\<lparr>logBuffer := logBuffer L @ [line]\<rparr>, wc))
       else writeToFile L wc line)"
    using p e by (simp add: fileLog_def Let_def flushBuffer_nonempty)
  show ?thesis
    using nf assms(2,3) p fl
    by (simp add: log_def Let_def ensure_initialized wc_def [symmetric])
qed

lemma logs_append:
  "logs L w (cs @ [c]) = (case logs L w cs of Some (None, L1, w1) \<Rightarrow> logs L1 w1 [c] | r \<Rightarrow> r)"
proof (induction cs arbitrary: L w)
  case Nil
  show ?case by (simp split: prod.split option.split)
next
  case (Cons a cs)
  show ?case
    by (simp add: Cons.IH split: prod.split option.split)
qed

lemma passes_same_level [simp]:
  "passes (L\<lparr>logBuffer := b\<rparr>) c = passes L c" "passes (L\<lparr>logWriteCount := n\<rparr>) c = passes L c"
  by (simp_all add: passes_def)

text \<open>While the buffer stays below its size, calls only extend it.\<close>

lemma logs_buffering:
  assumes "file_logging_ready L d" and "fileLogging (options L)" and "fileLoggingInitialized L"
    and "\<forall>c\<in>set cs. passes L c"
    and "map (entry_of (heap w) (moduleName L)) cs = map (\<lambda>l. Some (Inr l)) lines"
    and "int (length (logBuffer L) + length cs) < bufferSize (options L)"
  shows "\<exists>w'. logs L w cs = Some (None, L\<lparr>logBuffer := logBuffer L @ lines\<rparr>, w')
             \<and> append_calls w' = append_calls w \<and> heap w' = heap w"
  using assms
proof (induction cs arbitrary: L w lines)
  case Nil
  then show ?case by simp
next
  case (Cons c cs)
  obtain ts lvl message ctx where c: "c = (ts, lvl, message, ctx)" by (cases c) auto
  from Cons.prems(5) obtain l ls where lines: "lines = l # ls"
    and l: "entry_of (heap w) (moduleName L) c = Some (Inr l)"
    and ls: "map (entry_of (heap w) (moduleName L)) cs = map (\<lambda>l. Some (Inr l)) ls"
    by (cases lines) auto
  define wc where "wc = consoleLog w lvl (log_prefix ts lvl (moduleName L)) message ctx"
  define L1 where "L1 = L\<lparr>logBuffer := logBuffer L @ [l]\<rparr>"
  from Cons.prems(4) have pc: "passes L (ts, lvl, message, ctx)" by (simp add: c)
  from Cons.prems(6) have small: "\<not> int (length (logBuffer L)) + 1 \<ge> bufferSize (options L)"
    and pos: "bufferSize (options L) > 0" by simp_all
  from log_ready_step [OF Cons.prems(1-3) pc l [unfolded c]] small pos
  have step: "log L w ts lvl message ctx = Some (None, L1, wc)"
    by (simp add: L1_def wc_def)
  have pre: "file_logging_ready L1 d" "fileLogging (options L1)" "fileLoggingInitialized L1"
    "\<forall>c\<in>set cs. passes L1 c"
    "map (entry_of (heap wc) (moduleName L1)) cs = map (\<lambda>l. Some (Inr l)) ls"
    "int (length (logBuffer L1) + length cs) < bufferSize (options L1)"
    using Cons.prems ls by (simp_all add: L1_def wc_def)
  from Cons.IH [OF pre] obtain w' where
    "logs L1 wc cs = Some (None, L1\<lparr>logBuffer := logBuffer L1 @ ls\<rparr>, w')"
    "append_calls w' = append_calls wc" "heap w' = heap wc"
    by blast
  then show ?case
    by (simp add: c step lines L1_def wc_def)
qed

text \<open>With \<^verbatim>\<open>bufferSize\<close> not above 0 every call is one append of its own.\<close>

lemma logs_unbuffered:
  assumes "file_logging_ready L d" and "fileLogging (options L)" and "fileLoggingInitialized L"
    and "\<forall>c\<in>set cs. passes L c"
    and "map (entry_of (heap w) (moduleName L)) cs = map (\<lambda>l. Some (Inr l)) lines"
    and "bufferSize (options L) \<le> 0"
  shows "\<exists>L' w'. logs L w cs = Some (None, L', w')
             \<and> append_calls w' = append_calls w @ map (AppendFileSync (path_join d ''app.log'')) lines
             \<and> logBuffer L' = logBuffer L"
  using assms
proof (induction cs arbitrary: L w lines)
  case Nil
  then show ?case by simp
next
  case (Cons c cs)
  obtain ts lvl message ctx where c: "c = (ts, lvl, message, ctx)" by (cases c) auto
  from Cons.prems(5) obtain l ls where lines: "lines = l # ls"
    and l: "entry_of (heap w) (moduleName L) c = Some (Inr l)"
    and ls: "map (entry_of (heap w) (moduleName L)) cs = map (\<lambda>l. Some (Inr l)) ls"
    by (cases lines) auto
  define wc where "wc = consoleLog w lvl (log_prefix ts lvl (moduleName L)) message ctx"
  define L1 where "L1 = fst (writeToFile L wc l)"
  define w1 where "w1 = snd (writeToFile L wc l)"
  from Cons.prems(4) have pc: "passes L (ts, lvl, message, ctx)" by (simp add: c)
  from log_ready_step [OF Cons.prems(1-3) pc l [unfolded c]] Cons.prems(6)
  have step: "log L w ts lvl message ctx = Some (None, L1, w1)"
    by (simp add: L1_def w1_def wc_def)
  have L1: "L1 = L\<lparr>logWriteCount := (if logWriteCount L + 1 \<ge> rotationCheckInterval (options L) then 0
                                       else logWriteCount L + 1)\<rparr>"
    unfolding L1_def by (rule writeToFile_logger [OF Cons.prems(1)])
  have a1: "append_calls w1 = append_calls w @ [AppendFileSync (path_join d ''app.log'') l]"
    unfolding w1_def by (simp add: writeToFile_appends [OF Cons.prems(1)] wc_def)
  have h1: "heap w1 = heap w" by (simp add: w1_def wc_def)
  have pre: "file_logging_ready L1 d" "fileLogging (options L1)" "fileLoggingInitialized L1"
    "\<forall>c\<in>set cs. passes L1 c"
    "map (entry_of (heap w1) (moduleName L1)) cs = map (\<lambda>l. Some (Inr l)) ls"
    "bufferSize (options L1) \<le> 0"
    using Cons.prems ls by (simp_all add: L1 h1)
  from Cons.IH [OF pre] obtain L' w' where
    "logs L1 w1 cs = Some (None, L', w')"
    "append_calls w' = append_calls w1 @ map (AppendFileSync (path_join d ''app.log'')) ls"
    "logBuffer L' = logBuffer L1"
    by blast
  then show ?case
    by (simp add: c step lines a1 L1)
qed

text \<open>
  A message formats without throwing when the object graph of its context holds no BigInt
  and no callable \<^verbatim>\<open>toJSON\<close>.
\<close>

lemma entry_of_formats:
  assumes "graph_closed h R" and "bigint_free h R" and "toJSON_free h R"
    and "val_closed R ctx" and "\<not> is_bigint ctx"
  shows "\<exists>line. entry_of h nm (ts, lvl, message, ctx) = Some (Inr line)"
proof -
  from safeStringify_returns [OF assms, of "Suc (length h)" 2] obtain out where
    "safeStringify (Suc (length h)) h ctx 2 = Some (Inr out)" by auto
  then show ?thesis
    by (simp add: entry_of_def logEntry_def contextStr_def)
qed

text \<open>
  C3, as the code has it. On a logger with file logging initialized and an empty buffer,
  for calls that pass the level filter and whose entries format to \<open>lines\<close> (so none of
  them throws while formatting): with
  \<^verbatim>\<open>bufferSize = N > 0\<close>, fewer than \<open>N\<close> calls append nothing and leave the lines in the
  buffer; exactly \<open>N\<close> calls make one append, of the concatenation of the \<open>N\<close> lines, and
  leave the buffer empty; with \<^verbatim>\<open>bufferSize = 0\<close> every call makes one append of its own
  line. \<^verbatim>\<open>flush\<close> on a non-empty buffer makes one append of the concatenation of the
  buffered lines and empties the buffer; on an empty buffer it changes nothing.
\<close>

theorem buffered_writes:
  assumes "file_logging_ready L d" and "fileLogging (options L)" and "fileLoggingInitialized L"
    and "logBuffer L = []" and "bufferSize (options L) = N"
    and "\<forall>c\<in>set cs. passes L c"
    and "map (entry_of (heap w) (moduleName L)) cs = map (\<lambda>l. Some (Inr l)) lines"
  shows "(0 < N \<and> int (length cs) < N \<longrightarrow>
           (\<exists>L' w'. logs L w cs = Some (None, L', w') \<and> append_calls w' = append_calls w \<and> logBuffer L' = lines))
       \<and> (0 < N \<and> int (length cs) = N \<longrightarrow>
           (\<exists>L' w'. logs L w cs = Some (None, L', w')
              \<and> append_calls w' = append_calls w @ [AppendFileSync (path_join d ''app.log'') (concat lines)]
              \<and> logBuffer L' = []))
       \<and> (N = 0 \<longrightarrow>
           (\<exists>L' w'. logs L w cs = Some (None, L', w')
              \<and> append_calls w' = append_calls w @ map (AppendFileSync (path_join d ''app.log'')) lines
              \<and> logBuffer L' = []))
       \<and> (\<forall>L1 w1. file_logging_ready L1 d \<and> logBuffer L1 \<noteq> [] \<longrightarrow>
             append_calls (snd (flush L1 w1))
               = append_calls w1 @ [AppendFileSync (path_join d ''app.log'') (concat (logBuffer L1))]
             \<and> logBuffer (fst (flush L1 w1)) = [])
       \<and> (\<forall>L1 w1. logBuffer L1 = [] \<longrightarrow> flush L1 w1 = (L1, w1))"
proof -
  let ?live = "path_join d ''app.log''"
  have 1: "\<exists>L' w'. logs L w cs = Some (None, L', w') \<and> append_calls w' = append_calls w \<and> logBuffer L' = lines"
    if "0 < N" "int (length cs) < N"
  proof -
    from that assms(4,5) have "int (length (logBuffer L) + length cs) < bufferSize (options L)" by simp
    from logs_buffering [OF assms(1-3,6,7) this] assms(4) show ?thesis by auto
  qed
  have 2: "\<exists>L' w'. logs L w cs = Some (None, L', w')
        \<and> append_calls w' = append_calls w @ [AppendFileSync ?live (concat lines)] \<and> logBuffer L' = []"
    if "0 < N" "int (length cs) = N"
  proof -
    from that have "cs \<noteq> []" by auto
    then obtain cs0 c where cs: "cs = cs0 @ [c]" by (cases cs rule: rev_cases) auto
    obtain ts lvl message ctx where c: "c = (ts, lvl, message, ctx)" by (cases c) auto
    from assms(7) cs have "length lines = Suc (length cs0)"
      by (metis length_map length_append_singleton)
    then obtain ls0 l where lines: "lines = ls0 @ [l]" "length ls0 = length cs0"
      by (cases lines rule: rev_cases) auto
    with assms(7) cs have ls0: "map (entry_of (heap w) (moduleName L)) cs0 = map (\<lambda>l. Some (Inr l)) ls0"
      and l: "entry_of (heap w) (moduleName L) c = Some (Inr l)"
      by simp_all
    from assms(6) cs have p0: "\<forall>c\<in>set cs0. passes L c" and pc: "passes L c" by simp_all
    from that cs assms(4,5) have "int (length (logBuffer L) + length cs0) < bufferSize (options L)" by simp
    from logs_buffering [OF assms(1-3) p0 ls0 this] assms(4) obtain w0 where
      run0: "logs L w cs0 = Some (None, L\<lparr>logBuffer := ls0\<rparr>, w0)"
      and a0: "append_calls w0 = append_calls w" and h0: "heap w0 = heap w"
      by auto
    define L0 where "L0 = L\<lparr>logBuffer := ls0\<rparr>"
    define wc where "wc = consoleLog w0 lvl (log_prefix ts lvl (moduleName L0)) message ctx"
    have pre: "file_logging_ready L0 d" "fileLogging (options L0)" "fileLoggingInitialized L0"
      "passes L0 (ts, lvl, message, ctx)"
      "entry_of (heap w0) (moduleName L0) (ts, lvl, message, ctx) = Some (Inr l)"
      using assms(1-3) pc l by (simp_all add: L0_def c h0)
    have full: "int (length (logBuffer L0)) + 1 \<ge> bufferSize (options L0)" "bufferSize (options L0) > 0"
      using that cs lines assms(5) by (simp_all add: L0_def)
    from log_ready_step [OF pre] full
    have step: "log L0 w0 ts lvl message ctx = Some (None, writeToFile (L0\<lparr>logBuffer := []\<rparr>) wc (concat lines))"
      by (simp add: wc_def lines L0_def)
    have r: "file_logging_ready (L0\<lparr>logBuffer := []\<rparr>) d" using pre(1) by simp
    have b: "logBuffer (fst (writeToFile (L0\<lparr>logBuffer := []\<rparr>) wc (concat lines))) = []"
      by (simp add: writeToFile_logger [OF r])
    have a: "append_calls (snd (writeToFile (L0\<lparr>logBuffer := []\<rparr>) wc (concat lines)))
        = append_calls w @ [AppendFileSync ?live (concat lines)]"
      by (simp add: writeToFile_appends [OF r] wc_def a0)
    have "logs L w cs = Some (None, writeToFile (L0\<lparr>logBuffer := []\<rparr>) wc (concat lines))"
      by (simp add: cs logs_append run0 c step L0_def [symmetric] split: prod.split)
    with a b show ?thesis
      by (metis prod.collapse)
  qed
  have 3: "\<exists>L' w'. logs L w cs = Some (None, L', w')
        \<and> append_calls w' = append_calls w @ map (AppendFileSync ?live) lines \<and> logBuffer L' = []"
    if "N = 0"
  proof -
    from that assms(5) have "bufferSize (options L) \<le> 0" by simp
    from logs_unbuffered [OF assms(1-3,6,7) this] assms(4) show ?thesis by auto
  qed
  have 4: "append_calls (snd (flush L1 w1)) = append_calls w1 @ [AppendFileSync ?live (concat (logBuffer L1))]
        \<and> logBuffer (fst (flush L1 w1)) = []"
    if "file_logging_ready L1 d" "logBuffer L1 \<noteq> []" for L1 w1
  proof -
    from that(1) have r: "file_logging_ready (L1\<lparr>logBuffer := []\<rparr>) d" by simp
    show ?thesis
      by (simp add: flush_def flushBuffer_nonempty [OF that(2)] writeToFile_appends [OF r] writeToFile_logger [OF r])
  qed
  have 5: "flush L1 w1 = (L1, w1)" if "logBuffer L1 = []" for L1 w1
    using that by (simp add: flush_def flushBuffer_empty)
  from 1 2 3 4 5 show ?thesis by blast
qed

theorem buffered_writes_witness:
  "file_logging_ready logger_buffer_2 ''/u/logs'' \<and> fileLogging (options logger_buffer_2)
   \<and> fileLoggingInitialized logger_buffer_2 \<and> logBuffer logger_buffer_2 = []
   \<and> bufferSize (options logger_buffer_2) = 2 \<and> bufferSize (options logger_unbuffered) = 0
   \<and> list_all (passes logger_buffer_2) calls_2
   \<and> map (entry_of (heap world_ctx) (moduleName logger_buffer_2)) calls_2 = map (\<lambda>l. Some (Inr l)) lines_2
   \<and> (\<exists>L' w'. logs logger_buffer_2 world_ctx (take 1 calls_2) = Some (None, L', w')
          \<and> append_calls w' = [] \<and> logBuffer L' = take 1 lines_2)
   \<and> (\<exists>L' w'. logs logger_buffer_2 world_ctx calls_2 = Some (None, L', w')
          \<and> append_calls w' = [AppendFileSync ''/u/logs/app.log'' (concat lines_2)] \<and> logBuffer L' = [])
   \<and> (\<exists>L' w'. logs logger_unbuffered world_ctx calls_2 = Some (None, L', w')
          \<and> append_calls w' = map (AppendFileSync ''/u/logs/app.log'') lines_2 \<and> logBuffer L' = [])
   \<and> append_calls (snd (flush (logger_buffer_2\<lparr>logBuffer := [''a'', ''b'']\<rparr>) world_ctx))
        = [AppendFileSync ''/u/logs/app.log'' ''ab'']
   \<and> logBuffer (fst (flush (logger_buffer_2\<lparr>logBuffer := [''a'', ''b'']\<rparr>) world_ctx)) = []"
proof -
  let ?B = logger_buffer_2 and ?U = logger_unbuffered and ?w = world_ctx
  have p: "path_join ''/u/logs'' ''app.log'' = ''/u/logs/app.log''"
    by (simp add: path_join_def)
  have rB: "file_logging_ready ?B ''/u/logs''" "fileLogging (options ?B)" "fileLoggingInitialized ?B"
    "logBuffer ?B = []"
    and nB: "bufferSize (options ?B) = 2"
    by (simp_all add: logger_buffer_2_def ready_logger_def file_logging_ready_def p)
  have rU: "file_logging_ready ?U ''/u/logs''" "fileLogging (options ?U)" "fileLoggingInitialized ?U"
    "logBuffer ?U = []"
    and nU: "bufferSize (options ?U) = 0"
    by (simp_all add: logger_unbuffered_def ready_logger_def file_logging_ready_def p DEFAULT_OPTIONS_def)
  have pB: "\<forall>c\<in>set calls_2. passes ?B c" and pU: "\<forall>c\<in>set calls_2. passes ?U c"
    by (simp_all add: calls_2_def passes_def logger_buffer_2_def logger_unbuffered_def ready_logger_def
        DEFAULT_OPTIONS_def)
  have nm: "moduleName ?B = ''test''" "moduleName ?U = ''test''"
    by (simp_all add: logger_buffer_2_def logger_unbuffered_def ready_logger_def)
  have e: "map (entry_of (heap ?w) ''test'') calls_2 = map (\<lambda>l. Some (Inr l)) lines_2"
    by (simp add: world_ctx_def calls_2_def lines_2_def entry_of_def logEntry_def contextStr_def log_prefix_def
        safeStringify_def replacer_def call_toJSON_def heap_get_def gap_of_def QuoteJSONString_def quote_char_def
        object_text_def member_text_def eval_nat_numeral)
  have z: "append_calls ?w = []"
    by (simp add: append_calls_def world_ctx_def world0_def)
  have pB1: "\<forall>c\<in>set (take 1 calls_2). passes ?B c"
    using pB by (simp add: calls_2_def)
  have e1: "map (entry_of (heap ?w) (moduleName ?B)) (take 1 calls_2) = map (\<lambda>l. Some (Inr l)) (take 1 lines_2)"
    using e by (simp add: nm calls_2_def lines_2_def)
  have l1: "0 < (2::int) \<and> int (length (take 1 calls_2)) < 2" and l2: "0 < (2::int) \<and> int (length calls_2) = 2"
    by (simp_all add: calls_2_def)
  let ?live = "path_join ''/u/logs'' ''app.log''"
  from buffered_writes [OF rB nB pB1 e1] l1
  have "\<exists>L' w'. logs ?B ?w (take 1 calls_2) = Some (None, L', w')
          \<and> append_calls w' = append_calls ?w \<and> logBuffer L' = take 1 lines_2"
    by blast
  then have 1: "\<exists>L' w'. logs ?B ?w (take 1 calls_2) = Some (None, L', w')
          \<and> append_calls w' = [] \<and> logBuffer L' = take 1 lines_2"
    unfolding z .
  from buffered_writes [OF rB nB pB e [folded nm(1)]] l2
  have "\<exists>L' w'. logs ?B ?w calls_2 = Some (None, L', w')
          \<and> append_calls w' = append_calls ?w @ [AppendFileSync ?live (concat lines_2)] \<and> logBuffer L' = []"
    by blast
  then have 2: "\<exists>L' w'. logs ?B ?w calls_2 = Some (None, L', w')
          \<and> append_calls w' = [AppendFileSync ''/u/logs/app.log'' (concat lines_2)] \<and> logBuffer L' = []"
    unfolding z p append_Nil .
  from buffered_writes [OF rU nU pU e [folded nm(2)]]
  have "\<exists>L' w'. logs ?U ?w calls_2 = Some (None, L', w')
          \<and> append_calls w' = append_calls ?w @ map (AppendFileSync ?live) lines_2 \<and> logBuffer L' = []"
    by blast
  then have 3: "\<exists>L' w'. logs ?U ?w calls_2 = Some (None, L', w')
          \<and> append_calls w' = map (AppendFileSync ''/u/logs/app.log'') lines_2 \<and> logBuffer L' = []"
    unfolding z p append_Nil .
  define F where "F = ?B\<lparr>logBuffer := [''a'', ''b'']\<rparr>"
  have rF: "file_logging_ready F ''/u/logs'' \<and> logBuffer F \<noteq> []" and bF: "concat (logBuffer F) = ''ab''"
    using rB(1) by (simp_all add: F_def)
  from buffered_writes [OF rB nB pB e [folded nm(1)]] rF
  have "append_calls (snd (flush F ?w)) = append_calls ?w @ [AppendFileSync ?live (concat (logBuffer F))]
      \<and> logBuffer (fst (flush F ?w)) = []"
    by blast
  then have 4: "append_calls (snd (flush (?B\<lparr>logBuffer := [''a'', ''b'']\<rparr>) ?w)) = [AppendFileSync ''/u/logs/app.log'' ''ab'']
      \<and> logBuffer (fst (flush (?B\<lparr>logBuffer := [''a'', ''b'']\<rparr>) ?w)) = []"
    unfolding z p bF append_Nil unfolding F_def .
  have la: "list_all (passes ?B) calls_2" using pB by (simp add: list_all_iff)
  from rB nB nU la e [folded nm(1)] 1 2 3 4 show ?thesis by blast
qed


text \<open>
  C3 as the specification states it fails when a message throws while it is formatted.
  With \<^verbatim>\<open>bufferSize = 2\<close>, the second message that passes the level filter has the
  context \<^verbatim>\<open>{n: 1n}\<close>: \<^verbatim>\<open>safeStringify\<close> throws before the line is pushed, so the call
  throws after its console output, no append is made and the first line stays in the
  buffer.
\<close>

theorem nth_message_throws_unflushed:
  "file_logging_ready logger_buffer_2 ''/u/logs'' \<and> fileLogging (options logger_buffer_2)
   \<and> fileLoggingInitialized logger_buffer_2 \<and> logBuffer logger_buffer_2 = []
   \<and> bufferSize (options logger_buffer_2) = 2
   \<and> passes logger_buffer_2 (''T1'', INFO, ''a'', JUndefined)
   \<and> passes logger_buffer_2 (''T2'', INFO, ''b'', JRef 0)
   \<and> calls world0 = []
   \<and> logs logger_buffer_2 (world0\<lparr>heap := heap_bigint\<rparr>)
          [(''T1'', INFO, ''a'', JUndefined), (''T2'', INFO, ''b'', JRef 0)]
       = Some (Some TypeError_BigInt,
               logger_buffer_2\<lparr>logBuffer := [''[T1] [INFO] [test] a'' @ [CHR 0x0A]]\<rparr>,
               world0\<lparr>heap := heap_bigint,
                      console := [(ConsoleLog, [CStr ''[T1] [INFO] [test] a'']),
                                  (ConsoleLog, [CStr ''[T2] [INFO] [test] b'', CVal (JRef 0)])]\<rparr>)"
proof -
  have r: "file_logging_ready logger_buffer_2 ''/u/logs''" "fileLogging (options logger_buffer_2)"
    "fileLoggingInitialized logger_buffer_2" "logBuffer logger_buffer_2 = []"
    "bufferSize (options logger_buffer_2) = 2"
    by (simp_all add: logger_buffer_2_def ready_logger_def file_logging_ready_def path_join_def)
  have p: "passes logger_buffer_2 (''T1'', INFO, ''a'', JUndefined)"
    "passes logger_buffer_2 (''T2'', INFO, ''b'', JRef 0)"
    by (simp_all add: passes_def logger_buffer_2_def ready_logger_def DEFAULT_OPTIONS_def)
  have z: "calls world0 = []" by (simp add: world0_def)
  have b: "safeStringify (Suc (length heap_bigint)) heap_bigint (JRef 0) 2 = Some (Inl TypeError_BigInt)"
    by (simp add: safeStringify_def heap_bigint_def replacer_def call_toJSON_def heap_get_def gap_of_def Let_def)
  have run: "logs logger_buffer_2 (world0\<lparr>heap := heap_bigint\<rparr>)
          [(''T1'', INFO, ''a'', JUndefined), (''T2'', INFO, ''b'', JRef 0)]
       = Some (Some TypeError_BigInt,
               logger_buffer_2\<lparr>logBuffer := [''[T1] [INFO] [test] a'' @ [CHR 0x0A]]\<rparr>,
               world0\<lparr>heap := heap_bigint,
                      console := [(ConsoleLog, [CStr ''[T1] [INFO] [test] a'']),
                                  (ConsoleLog, [CStr ''[T2] [INFO] [test] b'', CVal (JRef 0)])]\<rparr>)"
    by (simp add: log_def Let_def logger_buffer_2_def ready_logger_def DEFAULT_OPTIONS_def
        ensureFileLoggingInitialized_def fileLog_def logEntry_def contextStr_def b [simplified]
        consoleLog_def console_emit_def world0_def log_prefix_def unset_def)
  from r p z run show ?thesis by blast
qed
subsection \<open>What a rotation does to the backups\<close>

text \<open>
  The loop never touches a path that is not one of the backups 1 to \<open>maxBackups - 1\<close>,
  whatever the file system does: it deletes at index \<open>maxBackups - 1\<close> and renames index
  \<open>i < maxBackups - 1\<close> to \<open>i + 1\<close>.
\<close>

lemma rotate_backups_keeps_other:
  assumes "i \<le> M - 1" and "\<forall>j. 1 \<le> j \<and> j \<le> M - 1 \<longrightarrow> q \<noteq> backup_path d j"
  shows "files (snd (rotate_backups d M i w)) q = files w q"
  using assms(1)
proof (induction "nat i" arbitrary: i w)
  case 0
  then have "rotate_backups d M i w = (None, w)" by (subst rotate_backups_step) simp
  then show ?case by simp
next
  case (Suc n)
  then have n: "n = nat (i - 1)" and i: "i \<ge> 1" and i': "i - 1 \<le> M - 1" by simp_all
  note IH = Suc.hyps(1) [OF n i']
  define e where "e = existsSync w (backup_path d i)"
  define u where "u = (if i = M - 1 then unlinkSync (snd e) (backup_path d i)
                       else renameSync (snd e) (backup_path d i) (backup_path d (i + 1)))"
  have eq: "rotate_backups d M i w =
      (if fst e then (if fst u = None then rotate_backups d M (i - 1) (snd u) else u)
       else rotate_backups d M (i - 1) (snd e))"
    unfolding u_def e_def using i by (subst rotate_backups_step) (simp only: if_True)
  have e: "files (snd e) q = files w q"
    unfolding e_def by simp
  from assms(2) i Suc.prems have q: "q \<noteq> backup_path d i" "i \<noteq> M - 1 \<longrightarrow> q \<noteq> backup_path d (i + 1)"
    by simp_all
  have u: "files (snd u) q = files w q"
  proof (cases "i = M - 1")
    case True
    with q(1) show ?thesis by (simp add: u_def unlinkSync_result e_def)
  next
    case False
    with q show ?thesis by (simp add: u_def renameSync_result e_def)
  qed
  show ?case
    unfolding eq using IH [of "snd e"] IH [of "snd u"] e u by simp
qed

text \<open>
  When no operation fails and the backups 1 to \<open>i\<close> exist, with \<open>i\<close> below
  \<open>maxBackups - 1\<close>, the loop from \<open>i\<close> moves each backup one index up.
\<close>

lemma rotate_backups_shift:
  assumes "\<forall>c. fs_fault w c = None" and "i \<le> M - 2" and "0 \<le> i"
    and "\<forall>j. 1 \<le> j \<and> j \<le> i \<longrightarrow> files w (backup_path d j) \<noteq> None"
    and "\<forall>j. 2 \<le> j \<and> j \<le> i + 1 \<longrightarrow> backup_path d j \<notin> dirs w"
  shows "fst (rotate_backups d M i w) = None
       \<and> (\<forall>j. 2 \<le> j \<and> j \<le> i + 1 \<longrightarrow> files (snd (rotate_backups d M i w)) (backup_path d j) = files w (backup_path d (j - 1)))
       \<and> (1 \<le> i \<longrightarrow> files (snd (rotate_backups d M i w)) (backup_path d 1) = None)
       \<and> (\<forall>q. (\<forall>j. 1 \<le> j \<and> j \<le> i + 1 \<longrightarrow> q \<noteq> backup_path d j) \<longrightarrow> files (snd (rotate_backups d M i w)) q = files w q)"
  using assms
proof (induction "nat i" arbitrary: i w)
  case 0
  then have "i = 0" by simp
  then have "rotate_backups d M i w = (None, w)" by (subst rotate_backups_step) simp
  with \<open>i = 0\<close> show ?case by auto
next
  case (Suc n)
  then have n: "n = nat (i - 1)" and i: "i \<ge> 1" by simp_all
  define e where "e = existsSync w (backup_path d i)"
  define u where "u = renameSync (snd e) (backup_path d i) (backup_path d (i + 1))"
  define w2 where "w2 = snd u"
  from Suc.prems(2) have nl: "i \<noteq> M - 1" by simp
  have eq: "rotate_backups d M i w =
      (if fst e then (if fst u = None then rotate_backups d M (i - 1) (snd u) else u)
       else rotate_backups d M (i - 1) (snd e))"
    unfolding u_def e_def using i nl by (subst rotate_backups_step) (simp only: if_True if_False)
  from Suc.prems(4) i have ex: "files w (backup_path d i) \<noteq> None" by simp
  with Suc.prems(1) have fe: "fst e" by (simp add: e_def)
  from Suc.prems(5) i have nd: "backup_path d (i + 1) \<notin> dirs w" by simp
  from Suc.prems(1) ex nd have fu: "fst u = None"
    by (simp add: u_def e_def renameSync_result)
  have f2: "files w2 = (files w)(backup_path d i := None, backup_path d (i + 1) := files w (backup_path d i))"
    unfolding w2_def u_def using fu [unfolded u_def] by (simp add: renameSync_result e_def)
  have run: "rotate_backups d M i w = rotate_backups d M (i - 1) w2"
    unfolding eq w2_def using fe fu by simp
  have inj: "backup_path d j = backup_path d k \<longleftrightarrow> j = k" if "1 \<le> j" "1 \<le> k" for j k
    using that by (simp add: backup_path_eq_iff)
  have pre: "\<forall>c. fs_fault w2 c = None" "i - 1 \<le> M - 2" "0 \<le> i - 1"
    "\<forall>j. 1 \<le> j \<and> j \<le> i - 1 \<longrightarrow> files w2 (backup_path d j) \<noteq> None"
    "\<forall>j. 2 \<le> j \<and> j \<le> i - 1 + 1 \<longrightarrow> backup_path d j \<notin> dirs w2"
    using Suc.prems i by (simp_all add: f2 inj) (simp_all add: w2_def u_def e_def)
  note IH = Suc.hyps(1) [OF n pre]
  let ?w' = "snd (rotate_backups d M (i - 1) w2)"
  from IH have ok: "fst (rotate_backups d M (i - 1) w2) = None"
    and sh: "\<And>j. 2 \<le> j \<Longrightarrow> j \<le> i \<Longrightarrow> files ?w' (backup_path d j) = files w2 (backup_path d (j - 1))"
    and fr: "\<And>q. (\<forall>j. 1 \<le> j \<and> j \<le> i \<longrightarrow> q \<noteq> backup_path d j) \<Longrightarrow> files ?w' q = files w2 q"
    and b1: "1 \<le> i - 1 \<Longrightarrow> files ?w' (backup_path d 1) = None"
    by simp_all
  have A: "files ?w' (backup_path d j) = files w (backup_path d (j - 1))" if "2 \<le> j" "j \<le> i + 1" for j
  proof (cases "j = i + 1")
    case True
    have "files ?w' (backup_path d (i + 1)) = files w2 (backup_path d (i + 1))"
      using i by (intro fr) (simp add: inj)
    with True show ?thesis by (simp add: f2)
  next
    case False
    with that have "j \<le> i" by simp
    from sh [OF that(1) this] that \<open>j \<le> i\<close> show ?thesis
      by (simp add: f2 inj)
  qed
  have B: "files ?w' (backup_path d 1) = None"
  proof (cases "1 \<le> i - 1")
    case True
    then show ?thesis by (rule b1)
  next
    case False
    with i have i1: "i = 1" by simp
    have "rotate_backups d M (i - 1) w2 = (None, w2)"
      using i1 by (subst rotate_backups_step) simp
    then show ?thesis by (simp add: f2 i1 inj)
  qed
  have C: "files ?w' q = files w q" if "\<forall>j. 1 \<le> j \<and> j \<le> i + 1 \<longrightarrow> q \<noteq> backup_path d j" for q
  proof -
    from that have "\<forall>j. 1 \<le> j \<and> j \<le> i \<longrightarrow> q \<noteq> backup_path d j" by simp
    from fr [OF this] that i show ?thesis by (simp add: f2)
  qed
  from ok A B C show ?case unfolding run by simp
qed

lemma rotateIfNeeded_keeps_other:
  assumes "file_logging_ready L d" and "maxBackups (options L) \<ge> 2"
    and "q \<noteq> path_join d ''app.log''"
    and "\<forall>j. 1 \<le> j \<and> j \<le> maxBackups (options L) - 1 \<longrightarrow> q \<noteq> backup_path d j"
  shows "files (rotateIfNeeded L w) q = files w q"
proof -
  from assms(1) have p: "logFilePath L = Some (path_join d ''app.log'')" "logsDir L = Some d" "d \<noteq> []"
    by (simp_all add: file_logging_ready_def)
  from assms(2,4) have q1: "q \<noteq> path_join d ''app.log.1''"
    by (simp add: backup_path_1)
  have loop: "files (snd (rotate_backups d (maxBackups (options L)) (maxBackups (options L) - 1) w0)) q = files w0 q"
    for w0 by (rule rotate_backups_keeps_other [OF order_refl assms(4)])
  show ?thesis
    using assms(3) q1
    by (simp add: rotateIfNeeded_unfold [OF p(1,2) path_join_nonempty p(3)] Let_def loop renameSync_result
        split: sum.split option.split del: existsSync_fields(1))
qed

lemma writeToFile_keeps_other:
  assumes "file_logging_ready L d" and "maxBackups (options L) \<ge> 2"
    and "q \<noteq> path_join d ''app.log''"
    and "\<forall>j. 1 \<le> j \<and> j \<le> maxBackups (options L) - 1 \<longrightarrow> q \<noteq> backup_path d j"
  shows "files (snd (writeToFile L w c)) q = files w q"
proof -
  from assms(1) have p: "logFilePath L = Some (path_join d ''app.log'')" "\<not> unset (logsDir L)"
    by (simp_all add: file_logging_ready_def)
  have r: "file_logging_ready (L\<lparr>logWriteCount := logWriteCount L + 1\<rparr>) d"
    "maxBackups (options (L\<lparr>logWriteCount := logWriteCount L + 1\<rparr>)) \<ge> 2"
    "\<forall>j. 1 \<le> j \<and> j \<le> maxBackups (options (L\<lparr>logWriteCount := logWriteCount L + 1\<rparr>)) - 1 \<longrightarrow> q \<noteq> backup_path d j"
    using assms by simp_all
  note rot = rotateIfNeeded_keeps_other [OF r(1,2) assms(3) r(3)]
  show ?thesis
    using assms(3)
    by (simp add: writeToFile_set [OF p(1) path_join_nonempty p(2)] Let_def appendFileSync_files rot
        split: option.split)
qed

lemma writes_keeps_other:
  assumes "file_logging_ready L d" and "maxBackups (options L) \<ge> 2"
    and "q \<noteq> path_join d ''app.log''"
    and "\<forall>j. 1 \<le> j \<and> j \<le> maxBackups (options L) - 1 \<longrightarrow> q \<noteq> backup_path d j"
  shows "files (snd (writes L w cs)) q = files w q"
  using assms
proof (induction cs arbitrary: L w)
  case Nil
  show ?case by simp
next
  case (Cons c cs)
  let ?L1 = "fst (writeToFile L w c)" and ?w1 = "snd (writeToFile L w c)"
  have split: "writes L w (c # cs) = writes ?L1 ?w1 cs"
    by (simp add: case_prod_unfold)
  have pre: "file_logging_ready ?L1 d" "maxBackups (options ?L1) \<ge> 2"
    "\<forall>j. 1 \<le> j \<and> j \<le> maxBackups (options ?L1) - 1 \<longrightarrow> q \<noteq> backup_path d j"
    using Cons.prems by (simp_all add: writeToFile_logger [OF Cons.prems(1)])
  from Cons.IH [OF pre(1,2) Cons.prems(3) pre(3), of ?w1]
       writeToFile_keeps_other [OF Cons.prems, of w c]
  show ?case unfolding split by simp
qed

text \<open>
  C2. The code keeps fewer backups than \<^verbatim>\<open>maxBackups\<close>. On a logger with file logging
  initialized and \<^verbatim>\<open>maxBackups = M \<ge> 2\<close>, no sequence of disk writes, in any
  environment, changes a backup file of index \<open>M\<close> or above: a rotation deletes the
  backup of index \<open>M - 1\<close> instead of renaming it to index \<open>M\<close>. So \<^verbatim>\<open>app.log.M\<close> never
  comes to exist in a logs directory that did not hold it, and at most \<open>M - 1\<close> rotated
  files are retained.
\<close>

theorem oldest_backup_never_written:
  assumes "file_logging_ready L d" and "maxBackups (options L) = M" and "M \<ge> 2" and "k \<ge> M"
  shows "files (snd (writes L w cs)) (backup_path d k) = files w (backup_path d k)"
proof -
  have inj: "backup_path d k \<noteq> backup_path d j" if "1 \<le> j" "j \<le> M - 1" for j
    using that assms(3,4) by (simp add: backup_path_eq_iff)
  from assms(2,3) inj show ?thesis
    by (intro writes_keeps_other [OF assms(1)]) simp_all
qed

text \<open>
  The part of a rotation below the last index. For \<^verbatim>\<open>maxBackups = M \<ge> 2\<close>, when no file
  operation fails, the live log file has reached \<^verbatim>\<open>maxFileSize\<close> and the backups 1 to
  \<open>M - 1\<close> exist, a rotation check moves the live file to \<^verbatim>\<open>app.log.1\<close> (same content,
  the live path is free afterwards), moves every backup \<open>j - 1\<close> below \<open>M - 1\<close> to \<open>j\<close>,
  leaves the backups 1 to \<open>M - 1\<close> all existing, and reports no failure.
\<close>

theorem rotation_shifts_backups:
  assumes "file_logging_ready L d" and "maxBackups (options L) = M" and "M \<ge> 2"
    and "\<forall>c. fs_fault w c = None" and "\<forall>p\<in>dirs w. files w p = None"
    and "files w (path_join d ''app.log'') = Some content"
    and "int (length content) \<ge> maxFileSize (options L)"
    and "\<forall>j. 1 \<le> j \<and> j \<le> M - 1 \<longrightarrow> files w (backup_path d j) \<noteq> None"
  shows "files (rotateIfNeeded L w) (backup_path d 1) = Some content
       \<and> files (rotateIfNeeded L w) (path_join d ''app.log'') = None
       \<and> (\<forall>j. 2 \<le> j \<and> j \<le> M - 1 \<longrightarrow> files (rotateIfNeeded L w) (backup_path d j) = files w (backup_path d (j - 1)))
       \<and> (\<forall>j. 1 \<le> j \<and> j \<le> M - 1 \<longrightarrow> files (rotateIfNeeded L w) (backup_path d j) \<noteq> None)
       \<and> console (rotateIfNeeded L w) = console w"
proof -
  let ?live = "path_join d ''app.log''"
  from assms(1) have p: "logFilePath L = Some ?live" "logsDir L = Some d" "d \<noteq> []"
    by (simp_all add: file_logging_ready_def)
  have inj: "backup_path d j = backup_path d k \<longleftrightarrow> j = k" if "1 \<le> j" "1 \<le> k" for j k
    using that by (simp add: backup_path_eq_iff)
  have nodir: "backup_path d j \<notin> dirs w" if "1 \<le> j" "j \<le> M - 1" for j
    using that assms(5,8) by blast
  define e where "e = existsSync w ?live"
  define s where "s = statSync (snd e) ?live"
  define x where "x = existsSync (snd s) (backup_path d (M - 1))"
  define u where "u = unlinkSync (snd x) (backup_path d (M - 1))"
  define w2 where "w2 = snd u"
  define rb where "rb = rotate_backups d M (M - 2) w2"
  define rn where "rn = renameSync (snd rb) ?live (backup_path d 1)"
  have fe: "fst e" using assms(4,6) by (simp add: e_def)
  have fs: "fst s = Inr (int (length content))"
    using assms(4,6) by (simp add: s_def e_def statSync_result)
  from assms(3,8) have top: "files w (backup_path d (M - 1)) \<noteq> None" by simp
  have fx: "fst x" using assms(4) top by (simp add: x_def s_def e_def)
  have fu: "fst u = None" using assms(4) top by (simp add: u_def x_def s_def e_def unlinkSync_result)
  have f2: "files w2 = (files w)(backup_path d (M - 1) := None)"
    unfolding w2_def u_def using fu [unfolded u_def] by (simp add: unlinkSync_result x_def s_def e_def)
  have env2: "fs_fault w2 = fs_fault w" "dirs w2 = dirs w" "console w2 = console w"
    by (simp_all add: w2_def u_def x_def s_def e_def)
  have loop: "rotate_backups d M (M - 1) (snd s) = rb"
    using assms(3) fx fu
    by (subst rotate_backups_step) (simp add: x_def [symmetric] u_def [symmetric] rb_def w2_def del: existsSync_fields(1))
  have pre: "\<forall>c. fs_fault w2 c = None" "M - 2 \<le> M - 2" "0 \<le> M - 2"
    "\<forall>j. 1 \<le> j \<and> j \<le> M - 2 \<longrightarrow> files w2 (backup_path d j) \<noteq> None"
    "\<forall>j. 2 \<le> j \<and> j \<le> M - 2 + 1 \<longrightarrow> backup_path d j \<notin> dirs w2"
    using assms(3,4,8) nodir by (simp_all add: env2 f2 inj)
  from rotate_backups_shift [OF pre, folded rb_def]
  have ok: "fst rb = None"
    and sh: "\<And>j. 2 \<le> j \<Longrightarrow> j \<le> M - 1 \<Longrightarrow> files (snd rb) (backup_path d j) = files w2 (backup_path d (j - 1))"
    and b1: "1 \<le> M - 2 \<Longrightarrow> files (snd rb) (backup_path d 1) = None"
    and fr: "\<And>q. (\<forall>j. 1 \<le> j \<and> j \<le> M - 1 \<longrightarrow> q \<noteq> backup_path d j) \<Longrightarrow> files (snd rb) q = files w2 q"
    by simp_all
  have envb: "fs_fault (snd rb) = fs_fault w" "dirs (snd rb) = dirs w" "console (snd rb) = console w"
    unfolding rb_def by (simp_all add: env2)
  have live_rb: "files (snd rb) ?live = Some content"
    using fr [of ?live] assms(6) by (simp add: f2)
  from assms(3) nodir [of 1] have nd1: "backup_path d 1 \<notin> dirs w" by simp
  have frn: "fst rn = None"
    using assms(4) live_rb nd1 by (simp add: rn_def renameSync_result envb)
  have fn: "files (snd rn) = (files (snd rb))(?live := None, backup_path d 1 := Some content)"
    unfolding rn_def using frn [unfolded rn_def] live_rb by (simp add: renameSync_result)
  have cn: "console (snd rn) = console w" by (simp add: rn_def envb)
  have run: "rotateIfNeeded L w = snd rn"
    using fe fs assms(2,7) loop ok frn
    by (simp add: rotateIfNeeded_unfold [OF p(1,2) path_join_nonempty p(3)] Let_def e_def [symmetric]
        s_def [symmetric] backup_path_1 rn_def [symmetric] del: existsSync_fields(1))
  have A: "files (snd rn) (backup_path d 1) = Some content"
    by (simp add: fn)
  have B: "files (snd rn) ?live = None"
    by (simp add: fn)
  have C: "files (snd rn) (backup_path d j) = files w (backup_path d (j - 1))" if "2 \<le> j" "j \<le> M - 1" for j
    using that sh [OF that] by (simp add: fn f2 inj)
  have D: "files (snd rn) (backup_path d j) \<noteq> None" if "1 \<le> j" "j \<le> M - 1" for j
  proof (cases "j = 1")
    case True
    then show ?thesis by (simp add: A)
  next
    case False
    with that have "2 \<le> j" by simp
    from C [OF this that(2)] assms(8) that \<open>2 \<le> j\<close> show ?thesis by simp
  qed
  from A B C D cn show ?thesis unfolding run by simp
qed

lemma backup_paths_u_logs:
  "path_join ''/u/logs'' ''app.log'' = ''/u/logs/app.log''"
  "backup_path ''/u/logs'' 1 = ''/u/logs/app.log.1''"
  "backup_path ''/u/logs'' 2 = ''/u/logs/app.log.2''"
  by (simp_all add: backup_path_def path_join_def show_int_def show_nat.simps digit_char_def)

theorem oldest_backup_never_written_witness:
  "file_logging_ready logger_keep_2 ''/u/logs'' \<and> maxBackups (options logger_keep_2) = 2
   \<and> files world0 ''/u/logs/app.log.2'' = None
   \<and> files (snd (writes logger_keep_2 world0 [''a'', ''b'', ''c''])) ''/u/logs/app.log.2'' = None
   \<and> files (snd (writes logger_keep_2 world0 [''a'', ''b'', ''c''])) ''/u/logs/app.log.1'' = Some ''b''
   \<and> files (snd (writes logger_keep_2 world0 [''a'', ''b'', ''c''])) ''/u/logs/app.log'' = Some ''c''"
proof -
  have r: "file_logging_ready logger_keep_2 ''/u/logs''" and m: "maxBackups (options logger_keep_2) = 2"
    by (simp_all add: file_logging_ready_def logger_keep_2_def ready_logger_def backup_paths_u_logs)
  have z: "files world0 ''/u/logs/app.log.2'' = None"
    by (simp add: world0_def)
  from oldest_backup_never_written [OF r m, of 2 world0 "[''a'', ''b'', ''c'']"] z
  have a: "files (snd (writes logger_keep_2 world0 [''a'', ''b'', ''c''])) ''/u/logs/app.log.2'' = None"
    by (simp add: backup_paths_u_logs)
  have b: "files (snd (writes logger_keep_2 world0 [''a'', ''b'', ''c''])) ''/u/logs/app.log.1'' = Some ''b''
      \<and> files (snd (writes logger_keep_2 world0 [''a'', ''b'', ''c''])) ''/u/logs/app.log'' = Some ''c''"
    by (simp add: writeToFile_def logger_keep_2_def ready_logger_def world0_def Let_def rotateIfNeeded_def
        existsSync_def statSync_def unlinkSync_def renameSync_def appendFileSync_def record_call_def
        rotate_backups_step backup_path_def path_join_def show_int_def show_nat.simps digit_char_def)
  from r m z a b show ?thesis by blast
qed

theorem rotation_shifts_backups_witness:
  "file_logging_ready logger_keep_3 ''/u/logs'' \<and> maxBackups (options logger_keep_3) = 3
   \<and> files world_backups ''/u/logs/app.log'' = Some ''xx''
   \<and> int (length ''xx'') \<ge> maxFileSize (options logger_keep_3)
   \<and> files world_backups ''/u/logs/app.log.1'' = Some ''b1''
   \<and> files world_backups ''/u/logs/app.log.2'' = Some ''b2''
   \<and> files (rotateIfNeeded logger_keep_3 world_backups) ''/u/logs/app.log.1'' = Some ''xx''
   \<and> files (rotateIfNeeded logger_keep_3 world_backups) ''/u/logs/app.log.2'' = Some ''b1''
   \<and> files (rotateIfNeeded logger_keep_3 world_backups) ''/u/logs/app.log'' = None
   \<and> console (rotateIfNeeded logger_keep_3 world_backups) = []"
proof -
  let ?L = logger_keep_3 and ?w = world_backups
  have r: "file_logging_ready ?L ''/u/logs''" and m: "maxBackups (options ?L) = 3" and g: "(3::int) \<ge> 2"
    by (simp_all add: file_logging_ready_def logger_keep_3_def ready_logger_def backup_paths_u_logs)
  have nf: "\<forall>c. fs_fault ?w c = None" and wf: "\<forall>p\<in>dirs ?w. files ?w p = None"
    by (simp_all add: world_backups_def world0_def)
  have f: "files ?w ''/u/logs/app.log'' = Some ''xx''" "files ?w ''/u/logs/app.log.1'' = Some ''b1''"
    "files ?w ''/u/logs/app.log.2'' = Some ''b2''" "console ?w = []"
    by (simp_all add: world_backups_def world0_def)
  have sz: "int (length ''xx'') \<ge> maxFileSize (options ?L)"
    by (simp add: logger_keep_3_def ready_logger_def)
  have ex: "\<forall>j. 1 \<le> j \<and> j \<le> 3 - 1 \<longrightarrow> files ?w (backup_path ''/u/logs'' j) \<noteq> None"
  proof (intro allI impI)
    fix j :: int
    assume "1 \<le> j \<and> j \<le> 3 - 1"
    then have "j = 1 \<or> j = 2" by arith
    then show "files ?w (backup_path ''/u/logs'' j) \<noteq> None"
      using f by (auto simp: backup_paths_u_logs)
  qed
  from rotation_shifts_backups [OF r m g nf wf f(1) [folded backup_paths_u_logs(1)] sz ex]
  have "files (rotateIfNeeded ?L ?w) (backup_path ''/u/logs'' 1) = Some ''xx''"
    and "files (rotateIfNeeded ?L ?w) (path_join ''/u/logs'' ''app.log'') = None"
    and "files (rotateIfNeeded ?L ?w) (backup_path ''/u/logs'' 2) = files ?w (backup_path ''/u/logs'' (2 - 1))"
    and "console (rotateIfNeeded ?L ?w) = console ?w"
    by simp_all
  with r m f sz show ?thesis
    by (simp add: backup_paths_u_logs)
qed

text \<open>
  C1. At the last index the rotation does not do what \<^verbatim>\<open>maxBackups\<close>, the number of
  backup files to keep, asks for. With \<^verbatim>\<open>maxBackups = 2\<close>, a live file at the size limit
  and \<^verbatim>\<open>app.log.1\<close> and \<^verbatim>\<open>app.log.2\<close> present, the rotation unlinks \<^verbatim>\<open>app.log.1\<close>,
  the newest backup, and never touches \<^verbatim>\<open>app.log.2\<close>: afterwards \<^verbatim>\<open>app.log.1\<close> holds
  the old live content and \<^verbatim>\<open>app.log.2\<close> is still there with its old content, where the
  backup of index \<^verbatim>\<open>maxBackups\<close> was to be deleted and replaced by the shifted
  \<^verbatim>\<open>app.log.1\<close>.
\<close>

theorem backup_at_maxBackups_not_deleted:
  "file_logging_ready logger_keep_2 ''/u/logs'' \<and> maxBackups (options logger_keep_2) = 2
   \<and> files world_backups ''/u/logs/app.log'' = Some ''xx''
   \<and> int (length ''xx'') \<ge> maxFileSize (options logger_keep_2)
   \<and> files world_backups ''/u/logs/app.log.1'' = Some ''b1''
   \<and> files world_backups ''/u/logs/app.log.2'' = Some ''b2''
   \<and> calls world_backups = []
   \<and> files (rotateIfNeeded logger_keep_2 world_backups) ''/u/logs/app.log.2'' = Some ''b2''
   \<and> files (rotateIfNeeded logger_keep_2 world_backups) ''/u/logs/app.log.1'' = Some ''xx''
   \<and> files (rotateIfNeeded logger_keep_2 world_backups) ''/u/logs/app.log'' = None
   \<and> calls (rotateIfNeeded logger_keep_2 world_backups)
       = [ExistsSync ''/u/logs/app.log'', StatSync ''/u/logs/app.log'', ExistsSync ''/u/logs/app.log.1'',
          UnlinkSync ''/u/logs/app.log.1'', RenameSync ''/u/logs/app.log'' ''/u/logs/app.log.1'']
   \<and> console (rotateIfNeeded logger_keep_2 world_backups) = []"
proof -
  let ?L = logger_keep_2 and ?w = world_backups
  have r: "file_logging_ready ?L ''/u/logs''" and m: "maxBackups (options ?L) = 2"
    by (simp_all add: file_logging_ready_def logger_keep_2_def ready_logger_def backup_paths_u_logs)
  have f: "files ?w ''/u/logs/app.log'' = Some ''xx''" "files ?w ''/u/logs/app.log.1'' = Some ''b1''"
    "files ?w ''/u/logs/app.log.2'' = Some ''b2''" "calls ?w = []"
    by (simp_all add: world_backups_def world0_def)
  have sz: "int (length ''xx'') \<ge> maxFileSize (options ?L)"
    by (simp add: logger_keep_2_def ready_logger_def)
  have a: "files (rotateIfNeeded ?L ?w) ''/u/logs/app.log.2'' = Some ''b2''
      \<and> files (rotateIfNeeded ?L ?w) ''/u/logs/app.log.1'' = Some ''xx''
      \<and> files (rotateIfNeeded ?L ?w) ''/u/logs/app.log'' = None"
    by (simp add: logger_keep_2_def ready_logger_def world_backups_def world0_def Let_def rotateIfNeeded_def
        existsSync_def statSync_def unlinkSync_def renameSync_def record_call_def
        rotate_backups_step backup_path_def path_join_def show_int_def show_nat.simps digit_char_def)
  have b: "calls (rotateIfNeeded ?L ?w)
       = [ExistsSync ''/u/logs/app.log'', StatSync ''/u/logs/app.log'', ExistsSync ''/u/logs/app.log.1'',
          UnlinkSync ''/u/logs/app.log.1'', RenameSync ''/u/logs/app.log'' ''/u/logs/app.log.1'']
      \<and> console (rotateIfNeeded ?L ?w) = []"
    by (simp add: logger_keep_2_def ready_logger_def world_backups_def world0_def Let_def rotateIfNeeded_def
        existsSync_def statSync_def unlinkSync_def renameSync_def record_call_def
        rotate_backups_step backup_path_def path_join_def show_int_def show_nat.simps digit_char_def)
  from r m f sz a b show ?thesis by blast
qed

subsection \<open>The error method\<close>

lemma log_console_first:
  assumes "log L w ts lvl message ctx = Some (exc, L', w')"
    and "level_num (level (options L)) \<le> level_num lvl"
  shows "take (Suc (length (console w))) (console w')
       = console w @ [(console_channel_of lvl, CStr (log_prefix ts lvl (moduleName L) @ '' '' @ message)
                         # (if truthy ctx then [CVal ctx] else []))]
       \<and> heap w' = heap w"
proof -
  define wc where "wc = consoleLog w lvl (log_prefix ts lvl (moduleName L)) message ctx"
  have c: "console wc = console w @ [(console_channel_of lvl, CStr (log_prefix ts lvl (moduleName L) @ '' '' @ message)
                         # (if truthy ctx then [CVal ctx] else []))]" and h: "heap wc = heap w"
    by (simp_all add: wc_def)
  have grow: "\<exists>cs. console w' = console wc @ cs \<and> heap w' = heap wc"
  proof (cases "fileLogging (options L)")
    case False
    with assms show ?thesis by (simp add: log_def Let_def wc_def [symmetric])
  next
    case True
    define e where "e = ensureFileLoggingInitialized L wc"
    have e: "\<exists>cs. console (snd e) = console wc @ cs \<and> heap (snd e) = heap wc"
      unfolding e_def
      by (simp add: ensureFileLoggingInitialized_def initFileLogging_def init_failed_def Let_def
          split: prod.split sum.split option.split)
         (auto simp: app_getPath_def existsSync_def mkdirSync_def record_call_def console_emit_def Let_def
          split: option.splits if_splits)
    have f: "\<exists>cs. console w2 = console w1 @ cs \<and> heap w2 = heap w1"
      if "fileLog L1 w1 prefix message ctx = Some (exc, L2, w2)" for L1 w1 prefix L2 w2
    proof -
      have wr: "\<exists>cs. console (snd (writeToFile La wa c)) = console wa @ cs" for La wa c
      proof (cases "unset (logFilePath La) \<or> unset (logsDir La)")
        case True
        then show ?thesis by (simp add: writeToFile_unset)
      next
        case False
        then obtain p where p: "logFilePath La = Some p" "p \<noteq> []" "\<not> unset (logsDir La)"
          by (auto simp: unset_def split: option.splits)
        have rot: "\<exists>cs. console (rotateIfNeeded Lb wb) = console wb @ cs" for Lb wb
        proof (cases "unset (logFilePath Lb) \<or> unset (logsDir Lb)")
          case True
          then show ?thesis by (simp add: rotateIfNeeded_unset)
        next
          case False
          then obtain q dd where "logFilePath Lb = Some q" "logsDir Lb = Some dd" "q \<noteq> []" "dd \<noteq> []"
            by (auto simp: unset_def split: option.splits)
          then show ?thesis
            by (simp add: rotateIfNeeded_unfold Let_def rotation_failed_def
                split: sum.split option.split del: existsSync_fields(1))
        qed
        from rot [of "La\<lparr>logWriteCount := logWriteCount La + 1\<rparr>" wa]
        show ?thesis
          by (auto simp: writeToFile_set [OF p] Let_def split: option.split)
      qed
      from that wr [of L1 w1] wr [of "L1\<lparr>logBuffer := []\<rparr>" w1] show ?thesis
        by (auto simp: fileLog_def Let_def flushBuffer_def split: if_splits option.splits sum.splits
            simp del: writeToFile_heap)
           (metis writeToFile_heap snd_conv append_Nil2)+
    qed
    from assms True have "(if \<not> unset (logFilePath (fst e)) then fileLog (fst e) (snd e) (log_prefix ts lvl (moduleName L)) message ctx
        else Some (None, fst e, snd e)) = Some (exc, L', w')"
      unfolding e_def wc_def by (simp add: log_def Let_def case_prod_unfold)
    with e f [of "fst e" "snd e" "log_prefix ts lvl (moduleName L)" L' w'] show ?thesis
      by (cases "unset (logFilePath (fst e))") auto
  qed
  with c h show ?thesis by auto
qed

text \<open>
  C8, as the code has it. For an \<^verbatim>\<open>Error\<close> instance \<open>E\<close> (at address \<open>a\<close>),
  \<^verbatim>\<open>error(message, E)\<close> is the ERROR-level emission with a new context object
  \<^verbatim>\<open>{ error: { name, message, stack } }\<close>: the normalized error is the value of the single
  property \<^verbatim>\<open>error\<close> of the context, not the context itself. The console receives the
  reference to that outer object as second argument, and for string-valued
  \<^verbatim>\<open>name\<close>, \<^verbatim>\<open>message\<close> and \<^verbatim>\<open>stack\<close> the text appended to the file entry is the JSON
  of the nested object.
\<close>

theorem error_context_wraps_error:
  assumes "heap_get (heap w) a = Some (ErrorObject n m st)"
  shows "error L w ts message (JRef a)
           = log L (w\<lparr>heap := heap w @ [PlainObject [(''name'', n), (''message'', m), (''stack'', st)],
                                           PlainObject [(''error'', JRef (length (heap w)))]]\<rparr>)
               ts ERROR message (JRef (Suc (length (heap w))))
       \<and> (\<forall>exc L' w'. error L w ts message (JRef a) = Some (exc, L', w') \<longrightarrow>
             heap w' = heap w @ [PlainObject [(''name'', n), (''message'', m), (''stack'', st)],
                                 PlainObject [(''error'', JRef (length (heap w)))]]
             \<and> take (Suc (length (console w))) (console w')
                 = console w @ [(ConsoleError, [CStr (log_prefix ts ERROR (moduleName L) @ '' '' @ message),
                                                CVal (JRef (Suc (length (heap w))))])])
       \<and> (\<forall>ns ms ss. n = JString ns \<and> m = JString ms \<and> st = JString ss \<longrightarrow>
             contextStr (heap w @ [PlainObject [(''name'', n), (''message'', m), (''stack'', st)],
                                   PlainObject [(''error'', JRef (length (heap w)))]])
                        (JRef (Suc (length (heap w))))
               = Some (Inr ('' '' @ object_text ''  '' [] ''  ''
                    [member_text ''  '' ''error'' (object_text ''  '' ''  '' ''    ''
                       [member_text ''  '' ''name'' (QuoteJSONString ns),
                        member_text ''  '' ''message'' (QuoteJSONString ms),
                        member_text ''  '' ''stack'' (QuoteJSONString ss)])])))"
proof -
  define h1 where "h1 = heap w @ [PlainObject [(''name'', n), (''message'', m), (''stack'', st)],
                                  PlainObject [(''error'', JRef (length (heap w)))]]"
  define w1 where "w1 = w\<lparr>heap := h1\<rparr>"
  have eq: "error L w ts message (JRef a) = log L w1 ts ERROR message (JRef (Suc (length (heap w))))"
    using assms by (simp add: error_def Let_def w1_def h1_def)
  have lvl: "level_num (level (options L)) \<le> level_num ERROR"
    by (cases "level (options L)") simp_all
  have obs: "heap w' = h1
      \<and> take (Suc (length (console w))) (console w')
          = console w @ [(ConsoleError, [CStr (log_prefix ts ERROR (moduleName L) @ '' '' @ message),
                                         CVal (JRef (Suc (length (heap w))))])]"
    if "error L w ts message (JRef a) = Some (exc, L', w')" for exc L' w'
    using log_console_first [OF that [unfolded eq] lvl] by (simp add: w1_def)
  have ser: "contextStr h1 (JRef (Suc (length (heap w))))
      = Some (Inr ('' '' @ object_text ''  '' [] ''  ''
                    [member_text ''  '' ''error'' (object_text ''  '' ''  '' ''    ''
                       [member_text ''  '' ''name'' (QuoteJSONString ns),
                        member_text ''  '' ''message'' (QuoteJSONString ms),
                        member_text ''  '' ''stack'' (QuoteJSONString ss)])]))"
    if "n = JString ns \<and> m = JString ms \<and> st = JString ss" for ns ms ss
  proof -
    have len: "length h1 = Suc (Suc (length (heap w)))" by (simp add: h1_def)
    have outer: "heap_get h1 (Suc (length (heap w))) = Some (PlainObject [(''error'', JRef (length (heap w)))])"
      and inner: "heap_get h1 (length (heap w)) = Some (PlainObject [(''name'', n), (''message'', m), (''stack'', st)])"
      by (simp_all add: heap_get_def h1_def nth_append)
    have gap: "gap_of 2 = ''  ''" by (simp add: gap_of_def eval_nat_numeral)
    show ?thesis
      using that
      by (simp add: contextStr_def safeStringify_def len gap replacer_def call_toJSON_def outer inner Let_def)
  qed
  from eq obs ser show ?thesis
    unfolding w1_def h1_def by blast
qed

theorem error_context_wraps_error_witness:
  "heap_get (heap world_err) 0 = Some (ErrorObject (JString ''Error'') (JString ''boom'') (JString ''at f''))
   \<and> (\<exists>L' w'. error logger_console world_err ''T'' ''failed'' (JRef 0) = Some (None, L', w')
         \<and> console w' = [(ConsoleError, [CStr ''[T] [ERROR] [test] failed'', CVal (JRef 2)])]
         \<and> heap_get (heap w') 2 = Some (PlainObject [(''error'', JRef 1)])
         \<and> heap_get (heap w') 1 = Some (PlainObject [(''name'', JString ''Error''), (''message'', JString ''boom''),
                                                       (''stack'', JString ''at f'')])
         \<and> contextStr (heap w') (JRef 2)
             = Some (Inr ('' {'' @ [CHR 0x0A] @ ''  '' @ [CHR 0x22] @ ''error'' @ [CHR 0x22] @ '': {'' @ [CHR 0x0A]
                 @ ''    '' @ [CHR 0x22] @ ''name'' @ [CHR 0x22] @ '': '' @ [CHR 0x22] @ ''Error'' @ [CHR 0x22] @ '','' @ [CHR 0x0A]
                 @ ''    '' @ [CHR 0x22] @ ''message'' @ [CHR 0x22] @ '': '' @ [CHR 0x22] @ ''boom'' @ [CHR 0x22] @ '','' @ [CHR 0x0A]
                 @ ''    '' @ [CHR 0x22] @ ''stack'' @ [CHR 0x22] @ '': '' @ [CHR 0x22] @ ''at f'' @ [CHR 0x22] @ [CHR 0x0A]
                 @ ''  }'' @ [CHR 0x0A] @ ''}'')))"
proof -
  have h: "heap_get (heap world_err) 0 = Some (ErrorObject (JString ''Error'') (JString ''boom'') (JString ''at f''))"
    by (simp add: world_err_def heap_get_def)
  have lc: "logger_console = \<lparr>moduleName = ''test'', options = DEFAULT_OPTIONS, logFilePath = None, logsDir = None,
      fileLoggingInitialized = False, logWriteCount = 0, logBuffer = []\<rparr>"
    by (simp add: logger_console_def new_Logger_def merge_options_def DEFAULT_OPTIONS_def Let_def)
  have run: "\<exists>L' w'. error logger_console world_err ''T'' ''failed'' (JRef 0) = Some (None, L', w')"
    unfolding error_context_wraps_error [OF h, THEN conjunct1]
    by (simp add: lc log_def DEFAULT_OPTIONS_def Let_def)
  then obtain L' w' where r: "error logger_console world_err ''T'' ''failed'' (JRef 0) = Some (None, L', w')"
    by blast
  from error_context_wraps_error [OF h, THEN conjunct2, THEN conjunct1, rule_format, OF r]
  have hp: "heap w' = heap world_err @ [PlainObject [(''name'', JString ''Error''), (''message'', JString ''boom''),
                (''stack'', JString ''at f'')], PlainObject [(''error'', JRef (length (heap world_err)))]]"
    and tk: "take (Suc (length (console world_err))) (console w')
        = console world_err @ [(ConsoleError, [CStr (log_prefix ''T'' ERROR (moduleName logger_console) @ '' '' @ ''failed''),
                                               CVal (JRef (Suc (length (heap world_err))))])]"
    by simp_all
  have cw: "console w' = [(ConsoleError, [CStr ''[T] [ERROR] [test] failed'', CVal (JRef 2)])]"
    using r [unfolded error_context_wraps_error [OF h, THEN conjunct1]]
    by (simp add: lc log_def DEFAULT_OPTIONS_def Let_def log_prefix_def world_err_def world0_def consoleLog_def
        console_emit_def) auto
  have g: "heap_get (heap w') 2 = Some (PlainObject [(''error'', JRef 1)])"
    "heap_get (heap w') 1 = Some (PlainObject [(''name'', JString ''Error''), (''message'', JString ''boom''),
                                                (''stack'', JString ''at f'')])"
    unfolding hp by (simp_all add: world_err_def heap_get_def)
  from error_context_wraps_error [OF h, THEN conjunct2, THEN conjunct2, rule_format, of "''Error''" "''boom''" "''at f''"]
  have "contextStr (heap w') (JRef (Suc (length (heap world_err))))
      = Some (Inr ('' '' @ object_text ''  '' [] ''  ''
                    [member_text ''  '' ''error'' (object_text ''  '' ''  '' ''    ''
                       [member_text ''  '' ''name'' (QuoteJSONString ''Error''),
                        member_text ''  '' ''message'' (QuoteJSONString ''boom''),
                        member_text ''  '' ''stack'' (QuoteJSONString ''at f'')])]))"
    unfolding hp by simp
  then have cs: "contextStr (heap w') (JRef 2)
             = Some (Inr ('' {'' @ [CHR 0x0A] @ ''  '' @ [CHR 0x22] @ ''error'' @ [CHR 0x22] @ '': {'' @ [CHR 0x0A]
                 @ ''    '' @ [CHR 0x22] @ ''name'' @ [CHR 0x22] @ '': '' @ [CHR 0x22] @ ''Error'' @ [CHR 0x22] @ '','' @ [CHR 0x0A]
                 @ ''    '' @ [CHR 0x22] @ ''message'' @ [CHR 0x22] @ '': '' @ [CHR 0x22] @ ''boom'' @ [CHR 0x22] @ '','' @ [CHR 0x0A]
                 @ ''    '' @ [CHR 0x22] @ ''stack'' @ [CHR 0x22] @ '': '' @ [CHR 0x22] @ ''at f'' @ [CHR 0x22] @ [CHR 0x0A]
                 @ ''  }'' @ [CHR 0x0A] @ ''}''))"
    by (simp add: world_err_def object_text_def member_text_def QuoteJSONString_def quote_char_def eval_nat_numeral)
  from h r cw g cs show ?thesis by blast
qed

text \<open>
  C8 as the specification states it fails: the context of the emitted entry is not the
  normalized \<^verbatim>\<open>{name, message, stack}\<close>. For \<^verbatim>\<open>new Error('boom')\<close> the object the console
  receives has the single property \<^verbatim>\<open>error\<close>.
\<close>

theorem error_context_is_not_normalized_error:
  "error logger_console world_err ''T'' ''failed'' (JRef 0)
     = Some (None, logger_console,
         world_err\<lparr>heap := [ErrorObject (JString ''Error'') (JString ''boom'') (JString ''at f''),
                             PlainObject [(''name'', JString ''Error''), (''message'', JString ''boom''),
                                          (''stack'', JString ''at f'')],
                             PlainObject [(''error'', JRef 1)]],
                    console := [(ConsoleError, [CStr ''[T] [ERROR] [test] failed'', CVal (JRef 2)])]\<rparr>)
   \<and> heap_get [ErrorObject (JString ''Error'') (JString ''boom'') (JString ''at f''),
                 PlainObject [(''name'', JString ''Error''), (''message'', JString ''boom''), (''stack'', JString ''at f'')],
                 PlainObject [(''error'', JRef 1)]] 2
       = Some (PlainObject [(''error'', JRef 1)])
   \<and> PlainObject [(''error'', JRef 1)]
       \<noteq> PlainObject [(''name'', JString ''Error''), (''message'', JString ''boom''), (''stack'', JString ''at f'')]"
  by (simp add: error_def logger_console_def new_Logger_def merge_options_def DEFAULT_OPTIONS_def Let_def
      log_def log_prefix_def world_err_def world0_def consoleLog_def console_emit_def heap_get_def)

subsection \<open>A context that cannot be serialized\<close>


section \<open>Properties of the process tracker\<close>

lemma kill_calls_proc_log [simp]: "kill_calls (proc_log w args) = kill_calls w"
  by (simp add: proc_log_def)

lemma kill_calls_proc_error [simp]: "kill_calls (proc_error w args) = kill_calls w"
  by (simp add: proc_error_def)

lemma kill_outcome_proc_log [simp]: "kill_outcome (proc_log w args) = kill_outcome w"
  by (simp add: proc_log_def)

lemma kill_outcome_proc_error [simp]: "kill_outcome (proc_error w args) = kill_outcome w"
  by (simp add: proc_error_def)

lemma kill_calls_try_kill [simp]: "kill_calls (try_kill w p pinfo sig) = kill_calls w @ [(p, sig)]"
  by (simp add: try_kill_def process_kill_def split: option.split)

lemma kill_outcome_try_kill [simp]: "kill_outcome (try_kill w p pinfo sig) = kill_outcome w"
  by (simp add: try_kill_def process_kill_def split: option.split)

lemma kill_calls_kill_entries:
  "kill_calls (kill_entries sig entries w) = kill_calls w @ map (\<lambda>e. (fst e, sig)) entries"
  by (induction entries arbitrary: w) auto

lemma map_of_None_iff_not_tracked: "map_of (trackedProcesses t) p = None \<longleftrightarrow> \<not> isTracked t p"
  by (simp add: isTracked_def map_of_eq_None_iff)

lemma not_tracked_after_delete: "\<not> isTracked (t\<lparr>trackedProcesses := AList.delete p (trackedProcesses t)\<rparr>) p"
  by (simp add: isTracked_def AList.delete_eq image_iff)

lemma info_after_delete:
  "q \<noteq> p \<Longrightarrow> getProcessInfo (t\<lparr>trackedProcesses := AList.delete p (trackedProcesses t)\<rparr>) q = getProcessInfo t q"
  by (simp add: getProcessInfo_def AList.delete_conv)

text \<open>
  C9. For a tracker whose tracked pids are \<open>{A, B, C}\<close>, when signalling \<open>B\<close> throws the
  "no such process" error (\<^verbatim>\<open>ESRCH\<close>), \<^verbatim>\<open>killAllTrackedProcesses\<close> still calls
  \<^verbatim>\<open>process.kill\<close> on \<open>A\<close> and on \<open>C\<close> (whatever those calls do): the calls it makes are
  exactly one per tracked entry, in the order of the entries; afterwards the tracked
  count is 0.
\<close>

theorem killAll_attempts_every_process:
  assumes "fst ` set (trackedProcesses t) = {A, B, C}"
    and "kill_outcome w B (default_signal s) = Some e"
    and "err_code e = Some ''ESRCH''"
    and "killAllTrackedProcesses t w s = (t', w')"
  shows "kill_calls w' = kill_calls w @ map (\<lambda>e. (fst e, default_signal s)) (trackedProcesses t)
       \<and> (A, default_signal s) \<in> set (drop (length (kill_calls w)) (kill_calls w'))
       \<and> (B, default_signal s) \<in> set (drop (length (kill_calls w)) (kill_calls w'))
       \<and> (C, default_signal s) \<in> set (drop (length (kill_calls w)) (kill_calls w'))
       \<and> getTrackedCount t' = 0"
proof -
  from assms(1) have ne: "trackedProcesses t \<noteq> []" by auto
  let ?sig = "default_signal s"
  from assms(4) ne have t': "t' = t\<lparr>trackedProcesses := []\<rparr>"
    and calls: "kill_calls w' = kill_calls w @ map (\<lambda>e. (fst e, ?sig)) (trackedProcesses t)"
    by (auto simp: killAllTrackedProcesses_def Let_def kill_calls_kill_entries)
  have mem: "(p, ?sig) \<in> set (drop (length (kill_calls w)) (kill_calls w'))"
    if "p \<in> {A, B, C}" for p
  proof -
    from that assms(1) obtain pinfo where "(p, pinfo) \<in> set (trackedProcesses t)" by force
    then have "(p, ?sig) \<in> set (map (\<lambda>e. (fst e, ?sig)) (trackedProcesses t))" by force
    then show ?thesis by (simp add: calls)
  qed
  from t' have "getTrackedCount t' = 0" by (simp add: getTrackedCount_def)
  with calls mem show ?thesis by simp
qed

theorem killAll_attempts_every_process_witness:
  "fst ` set (trackedProcesses tracker_abc) = {101, 202, 303}
   \<and> kill_outcome env_abc 202 (default_signal None) = Some esrch
   \<and> err_code esrch = Some ''ESRCH''
   \<and> kill_calls (snd (killAllTrackedProcesses tracker_abc env_abc None))
       = [(101, SIGTERM), (202, SIGTERM), (303, SIGTERM)]
   \<and> getTrackedCount (fst (killAllTrackedProcesses tracker_abc env_abc None)) = 0"
proof -
  have h1: "fst ` set (trackedProcesses tracker_abc) = {101, 202, 303}"
    by (simp add: tracker_abc_def)
  have h2: "kill_outcome env_abc 202 (default_signal None) = Some esrch"
    by (simp add: env_abc_def)
  have h3: "err_code esrch = Some ''ESRCH''"
    by (simp add: esrch_def)
  have h4: "killAllTrackedProcesses tracker_abc env_abc None
      = (fst (killAllTrackedProcesses tracker_abc env_abc None), snd (killAllTrackedProcesses tracker_abc env_abc None))"
    by simp
  from killAll_attempts_every_process [OF h1 h2 h3 h4] h1 h2 h3
  show ?thesis by (simp add: tracker_abc_def env_abc_def default_signal_def)
qed

text \<open>
  C10. \<^verbatim>\<open>killProcess(pid)\<close> on a tracked pid returns true, calls \<^verbatim>\<open>process.kill\<close>
  once and removes the pid from the tracked set and nothing else, whatever the call does
  (it may throw any error); on a pid that is not tracked it returns false, makes no call
  and leaves the tracker and its environment as they were.
\<close>

theorem killProcess_untracks_or_ignores:
  assumes "killProcess t w p s = (r, t', w')"
  shows "(isTracked t p \<longrightarrow>
            r \<and> \<not> isTracked t' p
            \<and> t' = t\<lparr>trackedProcesses := AList.delete p (trackedProcesses t)\<rparr>
            \<and> (\<forall>q. q \<noteq> p \<longrightarrow> getProcessInfo t' q = getProcessInfo t q)
            \<and> kill_calls w' = kill_calls w @ [(p, default_signal s)])
       \<and> (\<not> isTracked t p \<longrightarrow> \<not> r \<and> t' = t \<and> w' = w)"
proof (cases "map_of (trackedProcesses t) p")
  case None
  with assms show ?thesis
    by (simp add: killProcess_def map_of_None_iff_not_tracked [symmetric])
next
  case (Some pinfo)
  then have tr: "isTracked t p"
    using map_of_None_iff_not_tracked [of t p] by simp
  from assms Some have "r" and t': "t' = t\<lparr>trackedProcesses := AList.delete p (trackedProcesses t)\<rparr>"
    and "kill_calls w' = kill_calls w @ [(p, default_signal s)]"
    by (auto simp: killProcess_def Let_def)
  with tr show ?thesis
    by (simp add: not_tracked_after_delete info_after_delete)
qed

theorem killProcess_untracks_or_ignores_witness:
  "isTracked tracker_abc 303
   \<and> kill_outcome env_abc 303 SIGKILL = Some eperm
   \<and> fst (killProcess tracker_abc env_abc 303 (Some SIGKILL))
   \<and> \<not> isTracked (fst (snd (killProcess tracker_abc env_abc 303 (Some SIGKILL)))) 303
   \<and> getTrackedPids (fst (snd (killProcess tracker_abc env_abc 303 (Some SIGKILL)))) = [101, 202]
   \<and> kill_calls (snd (snd (killProcess tracker_abc env_abc 303 (Some SIGKILL)))) = [(303, SIGKILL)]
   \<and> \<not> isTracked tracker_abc 404
   \<and> killProcess tracker_abc env_abc 404 None = (False, tracker_abc, env_abc)"
proof -
  let ?r = "killProcess tracker_abc env_abc 303 (Some SIGKILL)"
  have a: "isTracked tracker_abc 303" and b: "\<not> isTracked tracker_abc 404"
    by (simp_all add: isTracked_def tracker_abc_def)
  have c: "kill_outcome env_abc 303 SIGKILL = Some eperm"
    by (simp add: env_abc_def)
  from killProcess_untracks_or_ignores [where t = tracker_abc and w = env_abc and p = 303 and s = "Some SIGKILL", OF triple_collapse] a
  have r: "fst ?r" and nt: "\<not> isTracked (fst (snd ?r)) 303"
    and t': "fst (snd ?r) = tracker_abc\<lparr>trackedProcesses := AList.delete 303 (trackedProcesses tracker_abc)\<rparr>"
    and k: "kill_calls (snd (snd ?r)) = kill_calls env_abc @ [(303, default_signal (Some SIGKILL))]"
    by blast+
  have pids: "getTrackedPids (fst (snd ?r)) = [101, 202]"
    unfolding t' by (simp add: getTrackedPids_def tracker_abc_def AList.delete_eq)
  have calls: "kill_calls (snd (snd ?r)) = [(303, SIGKILL)]"
    unfolding k by (simp add: env_abc_def default_signal_def)
  from killProcess_untracks_or_ignores [where t = tracker_abc and w = env_abc and p = 404 and s = None, OF triple_collapse] b
  have u: "killProcess tracker_abc env_abc 404 None = (False, tracker_abc, env_abc)"
    by (simp add: prod_eq_iff)
  from a c r nt pids calls b u show ?thesis by blast
qed

end
